theory Spec2Isabelle
  imports Main "HOL-Library.AList"
begin

section \<open>Strings as the converter uses them\<close>

text \<open>
  A Python \<open>str\<close> is modelled as a \<open>string\<close>; a character is a code point below 256.
  \<open>isspace\<close> is the white-space test shared by \<open>str.strip()\<close> and the pattern class
  \<open>\s\<close>; \<open>isdigit\<close> is the class \<open>\d\<close>. On this range of code points the white
  space is 9 to 13, 28 to 32, 133 and 160, and the decimal digits are 48 to 57.
\<close>

definition isspace :: "char \<Rightarrow> bool" where
  "isspace c = (of_char c \<in> {9, 10, 11, 12, 13, 28, 29, 30, 31, 32, 133, 160 :: nat})"

definition isdigit :: "char \<Rightarrow> bool" where
  "isdigit c = (48 \<le> (of_char c :: nat) \<and> (of_char c :: nat) \<le> 57)"

definition strip :: "string \<Rightarrow> string" where
  "strip s = rev (dropWhile isspace (rev (dropWhile isspace s)))"

definition startswith :: "string \<Rightarrow> string \<Rightarrow> bool" where
  "startswith pre s = (take (length pre) s = pre)"

text \<open>\<open>content.split('\n')\<close>: the pieces between line feeds, never an empty list.
  \<open>split_from\<close> carries the piece being read, last character first.\<close>

fun split_from :: "string \<Rightarrow> string \<Rightarrow> string list" where
  "split_from cur [] = [rev cur]"
| "split_from cur (c # cs) =
     (if c = CHR 0x0A then rev cur # split_from [] cs else split_from (c # cur) cs)"

definition split_nl :: "string \<Rightarrow> string list" where
  "split_nl s = split_from [] s"

text \<open>\<open>'\n'.join(lines)\<close>.\<close>

fun join_nl :: "string list \<Rightarrow> string" where
  "join_nl [] = []"
| "join_nl [l] = l"
| "join_nl (l # m # ls) = l @ CHR 0x0A # join_nl (m # ls)"

text \<open>
  \<open>int(s)\<close> on a capture of \<open>\d+\<close>. CPython refuses a decimal text of more than
  \<open>int_max_str_digits\<close> digits with \<open>ValueError\<close> (the limit of
  \<open>sys.get_int_max_str_digits()\<close>, 4300 unless the interpreter is started with another
  one; the converter does not change it, and leading zeros count). Below the limit
  Python integers are unbounded, and so is the result. Any argument that is not a
  non-empty digit string is reported as \<open>ValueError\<close> too (Python also accepts a sign,
  underscores and surrounding blanks; the converter never passes such text).
\<close>

datatype py_error = ValueError | TypeError

definition digit_val :: "char \<Rightarrow> int" where
  "digit_val c = int (of_char c) - 48"

definition int_of_digits :: "string \<Rightarrow> int" where
  "int_of_digits s = foldl (\<lambda>a c. 10 * a + digit_val c) 0 s"

definition int_max_str_digits :: nat where
  "int_max_str_digits = 4300"

definition py_int :: "string \<Rightarrow> py_error + int" where
  "py_int s =
     (if s \<noteq> [] \<and> list_all isdigit s \<and> length s \<le> int_max_str_digits
      then Inr (int_of_digits s) else Inl ValueError)"

text \<open>\<open>str(n)\<close> as an f-string prints it: decimal, with a minus sign below zero.\<close>

definition digit_char :: "nat \<Rightarrow> char" where
  "digit_char d = ''0123456789'' ! d"

fun digits :: "nat \<Rightarrow> string" where
  "digits n = (if n < 10 then [digit_char n] else digits (n div 10) @ [digit_char (n mod 10)])"

declare digits.simps [simp del]

definition py_str :: "int \<Rightarrow> string" where
  "py_str i = (if i < 0 then CHR ''-'' # digits (nat (- i)) else digits (nat i))"

section \<open>Regular expressions: \<open>re.match\<close> by backtracking\<close>

text \<open>
  Both patterns of the converter are a sequence of literal characters and of greedy
  repetitions of one character class, some of them in a capturing group. \<open>re.match\<close>
  anchors the pattern at the start of the text, tries the longest repetition first and
  gives characters back one at a time when the rest of the pattern fails; text after the
  match is ignored.
\<close>

datatype cls =
    Space        \<comment> \<open>\<open>\s\<close>\<close>
  | NonSpace     \<comment> \<open>\<open>\S\<close>\<close>
  | Digit        \<comment> \<open>\<open>\d\<close>\<close>
  | Except char  \<comment> \<open>\<open>[^c]\<close>\<close>

fun in_cls :: "cls \<Rightarrow> char \<Rightarrow> bool" where
  "in_cls Space c = isspace c"
| "in_cls NonSpace c = (\<not> isspace c)"
| "in_cls Digit c = isdigit c"
| "in_cls (Except x) c = (c \<noteq> x)"

datatype rx =
    Lit char    \<comment> \<open>one literal character\<close>
  | Star cls    \<comment> \<open>\<open>C*\<close>\<close>
  | Plus cls    \<comment> \<open>\<open>C+\<close>\<close>
  | GStar cls   \<comment> \<open>\<open>(C*)\<close>, a capturing group\<close>
  | GPlus cls   \<comment> \<open>\<open>(C+)\<close>, a capturing group\<close>

text \<open>The texts left after a greedy repetition, the longest repetition first.\<close>

fun greedy :: "cls \<Rightarrow> string \<Rightarrow> string list" where
  "greedy C [] = [[]]"
| "greedy C (x # xs) = (if in_cls C x then greedy C xs @ [x # xs] else [x # xs])"

fun rx_step :: "rx \<Rightarrow> string \<Rightarrow> string list" where
  "rx_step (Lit c) s = (case s of [] \<Rightarrow> [] | x # xs \<Rightarrow> if x = c then [xs] else [])"
| "rx_step (Star C) s = greedy C s"
| "rx_step (Plus C) s = (case s of [] \<Rightarrow> [] | x # xs \<Rightarrow> if in_cls C x then greedy C xs else [])"
| "rx_step (GStar C) s = greedy C s"
| "rx_step (GPlus C) s = (case s of [] \<Rightarrow> [] | x # xs \<Rightarrow> if in_cls C x then greedy C xs else [])"

fun is_group :: "rx \<Rightarrow> bool" where
  "is_group (GStar C) = True"
| "is_group (GPlus C) = True"
| "is_group r = False"

text \<open>The groups captured so far, with the text consumed between \<open>s\<close> and \<open>s'\<close> added when
  the item is a group.\<close>

definition capture :: "rx \<Rightarrow> string \<Rightarrow> string \<Rightarrow> string list \<Rightarrow> string list" where
  "capture r s s' caps =
     (if is_group r then caps @ [take (length s - length s') s] else caps)"

text \<open>
  \<open>rx_seq\<close> matches the items in order; \<open>rx_alts\<close> walks the alternatives of one item and
  returns the first that lets the rest of the pattern match.
\<close>

fun rx_seq :: "rx list \<Rightarrow> string \<Rightarrow> string list \<Rightarrow> string list option"
  and rx_alts :: "rx \<Rightarrow> rx list \<Rightarrow> string \<Rightarrow> string list \<Rightarrow> string list \<Rightarrow> string list option"
where
  "rx_seq [] s caps = Some caps"
| "rx_seq (r # rs) s caps = rx_alts r rs s caps (rx_step r s)"
| "rx_alts r rs s caps [] = None"
| "rx_alts r rs s caps (s' # alts) =
     (case rx_seq rs s' (capture r s s' caps) of
        Some res \<Rightarrow> Some res
      | None \<Rightarrow> rx_alts r rs s caps alts)"

text \<open>\<open>re.match(pattern, line)\<close>, then \<open>.groups()\<close> when there is a match.\<close>

definition re_match :: "rx list \<Rightarrow> string \<Rightarrow> string list option" where
  "re_match p s = rx_seq p s []"

text \<open>\<^verbatim>\<open>"([^"]+)"\s+"([^"]*)"\<close>\<close>

definition property_re :: "rx list" where
  "property_re =
     [Lit (CHR 0x22), GPlus (Except (CHR 0x22)), Lit (CHR 0x22), Plus Space,
      Lit (CHR 0x22), GStar (Except (CHR 0x22)), Lit (CHR 0x22)]"

text \<open>\<^verbatim>\<open>\(\s*([^)]+)\s*\)\s*\(\s*([^)]+)\s*\)\s*\(\s*([^)]+)\s*\)\s+(\S+)\s+\[([^\]]+)\]\s+\[([^\]]+)\]\s+(\d+)\s+(\d+)\s+(\d+)\<close>\<close>

definition face_re :: "rx list" where
  "face_re =
     [Lit CHR ''('', Star Space, GPlus (Except CHR '')''), Star Space, Lit CHR '')'', Star Space,
      Lit CHR ''('', Star Space, GPlus (Except CHR '')''), Star Space, Lit CHR '')'', Star Space,
      Lit CHR ''('', Star Space, GPlus (Except CHR '')''), Star Space, Lit CHR '')'',
      Plus Space, GPlus NonSpace, Plus Space,
      Lit CHR ''['', GPlus (Except CHR '']''), Lit CHR '']'', Plus Space,
      Lit CHR ''['', GPlus (Except CHR '']''), Lit CHR '']'',
      Plus Space, GPlus Digit, Plus Space, GPlus Digit, Plus Space, GPlus Digit]"

section \<open>The converter\<close>

record face =
  p1 :: string
  p2 :: string
  p3 :: string
  material :: string
  uaxis :: string
  vaxis :: string
  rotation :: int
  scale_x :: int
  scale_y :: int

record brush =
  faces :: "face list"

text \<open>
  The fields of \<open>MapToVmfConverter\<close>. The dictionary \<open>worldspawn_properties\<close> keeps its
  keys in the order of their first insertion, and assigning to a key that is present
  replaces the value where the key stands: an association list under \<open>AList.update\<close>.
\<close>

record converter =
  worldspawn_properties :: "(string \<times> string) list"
  brushes :: "brush list"
  default_texture :: string

text \<open>\<open>__init__\<close>\<close>

definition init :: "string \<Rightarrow> converter" where
  "init dt = \<lparr>worldspawn_properties = [], brushes = [], default_texture = dt\<rparr>"

text \<open>The converter together with the local variables of \<open>parse_map_file\<close>.\<close>

record pstate = converter +
  in_worldspawn :: bool
  in_brush :: bool
  current_brush :: "brush option"
  brace_depth :: int
  pending_brush :: bool
  brush_count :: int
  face_count :: int
  material_replacements_cnt :: int

text \<open>The dictionary that \<open>parse_map_file\<close> returns.\<close>

record stats =
  brushes_found :: int
  brushes_processed :: int
  faces_processed :: int
  material_replacements :: int

definition sentinel :: string where
  "sentinel = ''__TB_empty''"

text \<open>The dictionary \<open>face\<close> of lines 88 to 98: five fields are stripped, three converted
  by \<open>int\<close> (in the order rotation, scale_x, scale_y), the material is taken as given.\<close>

definition face_dict ::
  "string \<Rightarrow> string \<Rightarrow> string \<Rightarrow> string \<Rightarrow> string \<Rightarrow> string \<Rightarrow> string \<Rightarrow> string \<Rightarrow> string \<Rightarrow>
     py_error + face" where
  "face_dict g1 g2 g3 mat ua va rot sx sy =
     (case py_int rot of Inl e \<Rightarrow> Inl e | Inr r \<Rightarrow>
     (case py_int sx of Inl e \<Rightarrow> Inl e | Inr x \<Rightarrow>
     (case py_int sy of Inl e \<Rightarrow> Inl e | Inr y \<Rightarrow>
        Inr \<lparr>p1 = strip g1, p2 = strip g2, p3 = strip g3, material = mat,
             uaxis = strip ua, vaxis = strip va,
             rotation = r, scale_x = x, scale_y = y\<rparr>)))"

text \<open>Lines 49 and 50: the two groups are unpacked and the key is assigned.\<close>

definition set_property :: "pstate \<Rightarrow> string list \<Rightarrow> py_error + pstate" where
  "set_property s groups =
     (case groups of
        [key, val] \<Rightarrow>
          Inr (s\<lparr>worldspawn_properties := AList.update key val (worldspawn_properties s)\<rparr>)
      | _ \<Rightarrow> Inl ValueError)"

text \<open>Lines 83 to 100: the nine groups are unpacked, the sentinel material is replaced
  and counted, the face is built and appended to the current brush. Subscripting
  \<open>current_brush\<close> when it is \<open>None\<close> is a \<open>TypeError\<close>.\<close>

definition add_face :: "pstate \<Rightarrow> string list \<Rightarrow> py_error + pstate" where
  "add_face s groups =
     (case groups of
        [g1, g2, g3, mat, ua, va, rot, sx, sy] \<Rightarrow>
          (let replaced = (mat = sentinel);
               mat' = (if replaced then default_texture s else mat)
           in case face_dict g1 g2 g3 mat' ua va rot sx sy of
                Inl e \<Rightarrow> Inl e
              | Inr f \<Rightarrow>
                  (case current_brush s of
                     None \<Rightarrow> Inl TypeError
                   | Some b \<Rightarrow>
                       Inr (s\<lparr>current_brush := Some (b\<lparr>faces := faces b @ [f]\<rparr>),
                               face_count := face_count s + 1,
                               material_replacements_cnt :=
                                 (if replaced then material_replacements_cnt s + 1
                                  else material_replacements_cnt s)\<rparr>)))
      | _ \<Rightarrow> Inl ValueError)"

text \<open>Lines 71 to 78: a closing brace inside a brush. A brush dictionary is never empty,
  so \<open>if current_brush\<close> asks whether it is \<open>None\<close>.\<close>

definition close_brace :: "pstate \<Rightarrow> pstate" where
  "close_brace s =
     (let s1 = s\<lparr>brace_depth := brace_depth s - 1\<rparr>
      in if brace_depth s1 = 0 then
           (let s2 = s1\<lparr>in_brush := False\<rparr>
            in case current_brush s2 of
                 Some b \<Rightarrow> s2\<lparr>brushes := brushes s2 @ [b], current_brush := None\<rparr>
               | None \<Rightarrow> s2)
         else s1)"

text \<open>One turn of the loop over the lines (lines 28 to 101).\<close>

definition process_line :: "pstate \<Rightarrow> string \<Rightarrow> py_error + pstate" where
  "process_line s raw =
     (let line = strip raw in
      if startswith ''// brush'' line then
        Inr (s\<lparr>pending_brush := True, brush_count := brush_count s + 1\<rparr>)
      else if line = ''{'' \<and> \<not> in_brush s \<and> \<not> in_worldspawn s \<and> \<not> pending_brush s then
        Inr (s\<lparr>in_worldspawn := True\<rparr>)
      else if in_worldspawn s \<and> line = ''}'' \<and> \<not> in_brush s \<and> \<not> pending_brush s then
        Inr (s\<lparr>in_worldspawn := False\<rparr>)
      else if in_worldspawn s \<and> startswith [CHR 0x22] line then
        (case re_match property_re line of
           None \<Rightarrow> Inr s
         | Some groups \<Rightarrow> set_property s groups)
      else if pending_brush s \<and> line = ''{'' then
        Inr (s\<lparr>in_brush := True, current_brush := Some \<lparr>faces = []\<rparr>,
                brace_depth := 1, pending_brush := False\<rparr>)
      else if pending_brush s then Inr s
      else if in_brush s then
        (if line = ''{'' then Inr (s\<lparr>brace_depth := brace_depth s + 1\<rparr>)
         else if line = ''}'' then Inr (close_brace s)
         else if startswith ''('' line then
           (case re_match face_re line of
              None \<Rightarrow> Inr s
            | Some groups \<Rightarrow> add_face s groups)
         else Inr s)
      else Inr s)"

text \<open>The loop: an exception ends it.\<close>

fun run_lines :: "pstate \<Rightarrow> string list \<Rightarrow> py_error + pstate" where
  "run_lines s [] = Inr s"
| "run_lines s (l # ls) =
     (case process_line s l of Inl e \<Rightarrow> Inl e | Inr s' \<Rightarrow> run_lines s' ls)"

text \<open>The local variables as lines 19 to 26 set them, around the converter \<open>c\<close>.\<close>

definition start :: "converter \<Rightarrow> pstate" where
  "start c =
     \<lparr>worldspawn_properties = worldspawn_properties c, brushes = brushes c,
      default_texture = default_texture c,
      in_worldspawn = False, in_brush = False, current_brush = None, brace_depth = 0,
      pending_brush = False, brush_count = 0, face_count = 0,
      material_replacements_cnt = 0\<rparr>"

definition converter_of :: "pstate \<Rightarrow> converter" where
  "converter_of s =
     \<lparr>worldspawn_properties = worldspawn_properties s, brushes = brushes s,
      default_texture = default_texture s\<rparr>"

definition stats_of :: "pstate \<Rightarrow> stats" where
  "stats_of s =
     \<lparr>brushes_found = brush_count s,
      brushes_processed = int (length (brushes s)),
      faces_processed = face_count s,
      material_replacements = material_replacements_cnt s\<rparr>"

text \<open>\<open>parse_map_file\<close>: the converter as the call leaves it, and the statistics returned.\<close>

definition parse_map_file :: "converter \<Rightarrow> string \<Rightarrow> py_error + (converter \<times> stats)" where
  "parse_map_file c map_content =
     (case run_lines (start c) (split_nl map_content) of
        Inl e \<Rightarrow> Inl e
      | Inr s \<Rightarrow> Inr (converter_of s, stats_of s))"

subsection \<open>\<open>generate_vmf\<close>\<close>

definition tab :: char where
  "tab = CHR 0x09"

definition quoted_pair :: "string \<Rightarrow> string \<Rightarrow> string" where
  "quoted_pair k v = [CHR 0x22] @ k @ [CHR 0x22] @ '' '' @ [CHR 0x22] @ v @ [CHR 0x22]"

text \<open>The nine lines of one side block (lines 135 to 143).\<close>

definition side_lines :: "int \<Rightarrow> face \<Rightarrow> string list" where
  "side_lines side_id f =
     [[tab, tab] @ ''side'',
      [tab, tab] @ ''{'',
      [tab, tab, tab] @ quoted_pair ''id'' (py_str side_id),
      [tab, tab, tab] @ quoted_pair ''plane''
         (''('' @ p1 f @ '') ('' @ p2 f @ '') ('' @ p3 f @ '')''),
      [tab, tab, tab] @ quoted_pair ''material'' (material f),
      [tab, tab, tab] @ quoted_pair ''uaxis'' (''['' @ uaxis f @ ''] 0.25''),
      [tab, tab, tab] @ quoted_pair ''vaxis'' (''['' @ vaxis f @ ''] 0.25''),
      [tab, tab, tab] @ quoted_pair ''lightmapscale'' ''16'',
      [tab, tab] @ ''}'']"

text \<open>The inner loop over the faces of a brush: the lines so far and the next side
  identifier go in and come out.\<close>

fun emit_faces :: "face list \<Rightarrow> string list \<times> int \<Rightarrow> string list \<times> int" where
  "emit_faces [] (vmf, side_id) = (vmf, side_id)"
| "emit_faces (f # fs) (vmf, side_id) = emit_faces fs (vmf @ side_lines side_id f, side_id + 1)"

text \<open>The outer loop over the brushes (lines 129 to 147), with both counters.\<close>

fun emit_brushes :: "brush list \<Rightarrow> string list \<times> int \<times> int \<Rightarrow> string list \<times> int \<times> int" where
  "emit_brushes [] st = st"
| "emit_brushes (b # bs) (vmf, solid_id, side_id) =
     (let vmf1 = vmf @ [[tab] @ ''solid'', [tab] @ ''{'',
                        [tab, tab] @ quoted_pair ''id'' (py_str solid_id)];
          (vmf2, side_id2) = emit_faces (faces b) (vmf1, side_id)
      in emit_brushes bs (vmf2 @ [[tab] @ ''}''], solid_id + 1, side_id2))"

definition vmf_lines :: "converter \<Rightarrow> string list" where
  "vmf_lines c =
     (let vmf0 = [''world'', ''{'', [tab] @ quoted_pair ''id'' ''0''];
          vmf1 = vmf0 @ map (\<lambda>(k, v). [tab] @ quoted_pair k v) (worldspawn_properties c);
          (vmf2, solid_id, side_id) = emit_brushes (brushes c) (vmf1, 1, 2)
      in vmf2 @ [''}''])"

definition generate_vmf :: "converter \<Rightarrow> string" where
  "generate_vmf c = join_nl (vmf_lines c)"

section \<open>Notions the properties are stated with\<close>

subsection \<open>Identifiers in the serialized text\<close>

text \<open>The number of faces in the brushes before position \<open>i\<close>.\<close>

definition faces_before :: "brush list \<Rightarrow> nat \<Rightarrow> nat" where
  "faces_before bs i = sum_list (map (\<lambda>b. length (faces b)) (take i bs))"

text \<open>The side blocks of a face list whose first face gets the identifier \<open>first\<close>.\<close>

definition side_blocks :: "int \<Rightarrow> face list \<Rightarrow> string list" where
  "side_blocks first fs =
     concat (map (\<lambda>j. side_lines (first + int j) (fs ! j)) [0..<length fs])"

definition solid_block :: "int \<Rightarrow> int \<Rightarrow> brush \<Rightarrow> string list" where
  "solid_block solid_id first b =
     [[tab] @ ''solid'', [tab] @ ''{'', [tab, tab] @ quoted_pair ''id'' (py_str solid_id)]
     @ side_blocks first (faces b) @ [[tab] @ ''}'']"

definition solid_blocks :: "int \<Rightarrow> int \<Rightarrow> brush list \<Rightarrow> string list" where
  "solid_blocks solid0 side0 bs =
     concat (map (\<lambda>i. solid_block (solid0 + int i) (side0 + int (faces_before bs i)) (bs ! i))
                 [0..<length bs])"

definition world_head :: "converter \<Rightarrow> string list" where
  "world_head c =
     [''world'', ''{'', [tab] @ quoted_pair ''id'' ''0'']
     @ map (\<lambda>(k, v). [tab] @ quoted_pair k v) (worldspawn_properties c)"

text \<open>A document whose faces carry other rotation and scale numbers.\<close>

definition with_numbers ::
  "(face \<Rightarrow> int) \<Rightarrow> (face \<Rightarrow> int) \<Rightarrow> (face \<Rightarrow> int) \<Rightarrow> converter \<Rightarrow> converter" where
  "with_numbers r sx sy c =
     c\<lparr>brushes :=
         map (\<lambda>b. b\<lparr>faces :=
                      map (\<lambda>f. f\<lparr>rotation := r f, scale_x := sx f, scale_y := sy f\<rparr>) (faces b)\<rparr>)
             (brushes c)\<rparr>"

subsection \<open>What one line does\<close>

text \<open>A capturing group holds text of its class, at least one character under \<open>+\<close>.\<close>

fun grp_ok :: "rx \<Rightarrow> string \<Rightarrow> bool" where
  "grp_ok (GPlus C) g = (g \<noteq> [] \<and> list_all (in_cls C) g)"
| "grp_ok (GStar C) g = list_all (in_cls C) g"
| "grp_ok r g = False"

text \<open>The three numbers of a matched face line are within the limit of \<open>int\<close>.\<close>

definition short_numbers :: "string list \<Rightarrow> bool" where
  "short_numbers gs =
     (length (gs ! 6) \<le> int_max_str_digits \<and> length (gs ! 7) \<le> int_max_str_digits
      \<and> length (gs ! 8) \<le> int_max_str_digits)"

text \<open>The face that a matched face line adds, from its nine groups.\<close>

definition face_of :: "string \<Rightarrow> string list \<Rightarrow> face" where
  "face_of dt gs =
     \<lparr>p1 = strip (gs ! 0), p2 = strip (gs ! 1), p3 = strip (gs ! 2),
      material = (if gs ! 3 = sentinel then dt else gs ! 3),
      uaxis = strip (gs ! 4), vaxis = strip (gs ! 5),
      rotation = int_of_digits (gs ! 6), scale_x = int_of_digits (gs ! 7),
      scale_y = int_of_digits (gs ! 8)\<rparr>"

text \<open>A brush marker: the stripped line begins with \<open>// brush\<close>.\<close>

definition is_marker :: "string \<Rightarrow> bool" where
  "is_marker raw = startswith ''// brush'' (strip raw)"

text \<open>The key and value that the line assigns in state \<open>s\<close>, if it assigns one: the
  worldspawn flag is set and the line matches the property pattern.\<close>

definition upsert_event :: "pstate \<Rightarrow> string \<Rightarrow> (string \<times> string) option" where
  "upsert_event s raw =
     (if in_worldspawn s \<and> startswith [CHR 0x22] (strip raw) then
        (case re_match property_re (strip raw) of
           Some gs \<Rightarrow> Some (gs ! 0, gs ! 1)
         | None \<Rightarrow> None)
      else None)"

text \<open>The groups of the face that the line adds in state \<open>s\<close>, if it adds one: a brush
  is open, no marker is waiting for its brace, and the line matches the face pattern.\<close>

definition face_event :: "pstate \<Rightarrow> string \<Rightarrow> string list option" where
  "face_event s raw =
     (if in_brush s \<and> \<not> pending_brush s \<and> startswith ''('' (strip raw)
      then re_match face_re (strip raw) else None)"

text \<open>The brush that the line closes in state \<open>s\<close>, if it closes one: the line is \<open>}\<close>, a
  brush is open at depth 1 and no marker is waiting for its brace.\<close>

definition close_event :: "pstate \<Rightarrow> string \<Rightarrow> brush option" where
  "close_event s raw =
     (if strip raw = ''}'' \<and> in_brush s \<and> \<not> pending_brush s \<and> brace_depth s = 1
      then current_brush s else None)"

text \<open>The value that the line gives the worldspawn flag in state \<open>s\<close>, if it sets or clears
  it: a line \<open>{\<close> or \<open>}\<close> read outside any brush, with no marker waiting for its brace.\<close>

definition ws_event :: "pstate \<Rightarrow> string \<Rightarrow> bool option" where
  "ws_event s raw =
     (if \<not> in_brush s \<and> \<not> pending_brush s \<and> strip raw = ''{'' then Some True
      else if \<not> in_brush s \<and> \<not> pending_brush s \<and> strip raw = ''}'' then Some False
      else None)"

text \<open>What happens along the loop from state \<open>s\<close>, in order.\<close>

fun events :: "(pstate \<Rightarrow> string \<Rightarrow> 'a option) \<Rightarrow> pstate \<Rightarrow> string list \<Rightarrow> 'a list" where
  "events ev s [] = []"
| "events ev s (l # ls) =
     (case ev s l of None \<Rightarrow> [] | Some a \<Rightarrow> [a])
     @ (case process_line s l of Inl e \<Rightarrow> [] | Inr s' \<Rightarrow> events ev s' ls)"

text \<open>Assigning one key of the dictionary.\<close>

definition upd :: "(string \<times> string) list \<Rightarrow> string \<times> string \<Rightarrow> (string \<times> string) list" where
  "upd m kv = AList.update (fst kv) (snd kv) m"

text \<open>While a brush is open there is a current brush.\<close>

definition brush_inv :: "pstate \<Rightarrow> bool" where
  "brush_inv s = (in_brush s \<longrightarrow> current_brush s \<noteq> None)"

text \<open>The shape of a line, as the tests of the loop tell the lines apart.\<close>

datatype kind = KMarker | KOpen | KClose | KQuote | KParen | KOther

definition line_kind :: "string \<Rightarrow> kind" where
  "line_kind raw =
     (let l = strip raw in
      if startswith ''// brush'' l then KMarker
      else if l = ''{'' then KOpen
      else if l = ''}'' then KClose
      else if startswith [CHR 0x22] l then KQuote
      else if startswith ''('' l then KParen
      else KOther)"

subsection \<open>Example data\<close>

definition face0 :: "string \<Rightarrow> face" where
  "face0 m =
     \<lparr>p1 = ''0 0 0'', p2 = ''0 0 1'', p3 = ''0 1 0'', material = m,
      uaxis = ''1 0 0 0'', vaxis = ''0 1 0 0'', rotation = 0, scale_x = 1, scale_y = 1\<rparr>"

definition doc0 :: converter where
  "doc0 =
     \<lparr>worldspawn_properties = [],
      brushes = [\<lparr>faces = [face0 ''x'', face0 ''y'']\<rparr>, \<lparr>faces = [face0 ''z'']\<rparr>],
      default_texture = ''t''\<rparr>"





text \<open>A brush inside the worldspawn block, closed, then a property line.\<close>

definition nested_text :: string where
  "nested_text = join_nl [''{'', ''// brush'', ''{'', ''}'', quoted_pair ''k'' ''v'']"

text \<open>A second brush after the first, and the brace that closes the worldspawn block.\<close>

definition more_brush_lines :: "string list" where
  "more_brush_lines = [''// brush'', ''{'', ''}'']"

text \<open>The loop state when the closing brace of that brush is read.\<close>

definition in_nested_brush :: pstate where
  "in_nested_brush =
     \<lparr>worldspawn_properties = [], brushes = [], default_texture = ''t'',
      in_worldspawn = True, in_brush = True, current_brush = Some \<lparr>faces = []\<rparr>,
      brace_depth = 1, pending_brush = False, brush_count = 1, face_count = 0,
      material_replacements_cnt = 0\<rparr>"

text \<open>The order of the keys of a sequence of assignments by the first assignment of each
  key, and by the last.\<close>

definition first_write_order :: "(string \<times> string) list \<Rightarrow> string list" where
  "first_write_order ws = rev (remdups (rev (map fst ws)))"

definition last_write_order :: "(string \<times> string) list \<Rightarrow> string list" where
  "last_write_order ws = remdups (map fst ws)"

text \<open>A worldspawn block that assigns the key \<open>a\<close> twice.\<close>

definition dup_text :: string where
  "dup_text =
     join_nl [''{'', quoted_pair ''a'' ''1'', quoted_pair ''b'' ''2'', quoted_pair ''a'' ''3'']"

text \<open>A brush with one face, a second marker before its closing brace, a closing brace
  that is skipped, and the brace that opens the next brush.\<close>

definition abandoned_lines :: "string list" where
  "abandoned_lines = [''// brush 1'', ''}'', ''{'']"

definition with_open_face :: pstate where
  "with_open_face =
     \<lparr>worldspawn_properties = [], brushes = [], default_texture = ''t'',
      in_worldspawn = False, in_brush = True, current_brush = Some \<lparr>faces = [face0 ''m'']\<rparr>,
      brace_depth = 1, pending_brush = False, brush_count = 1, face_count = 1,
      material_replacements_cnt = 0\<rparr>"

subsection \<open>Markers and the brushes they open\<close>

text \<open>A line \<open>{\<close> comes before the next marker.\<close>

fun opens_before_marker :: "string list \<Rightarrow> bool" where
  "opens_before_marker [] = False"
| "opens_before_marker (l # ls) =
     (if is_marker l then False else if strip l = ''{'' then True else opens_before_marker ls)"

text \<open>The markers with no line \<open>{\<close> before the next marker or the end of the text.\<close>

fun orphan_markers :: "string list \<Rightarrow> nat" where
  "orphan_markers [] = 0"
| "orphan_markers (l # ls) =
     (if is_marker l \<and> \<not> opens_before_marker ls then 1 else 0) + orphan_markers ls"

text \<open>The markers counted so far that stand for no appended, open or awaited brush.\<close>

definition slack :: "pstate \<Rightarrow> int" where
  "slack s =
     brush_count s - int (length (brushes s)) - (if in_brush s then 1 else 0)
     - (if pending_brush s then 1 else 0)"

text \<open>The awaited brush will not be opened by the lines to come.\<close>

definition lost :: "pstate \<Rightarrow> string list \<Rightarrow> int" where
  "lost s ls = (if pending_brush s \<and> \<not> opens_before_marker ls then 1 else 0)"

text \<open>Two markers and one brush.\<close>

definition orphan_text :: string where
  "orphan_text = join_nl [''// brush 0'', ''// brush 1'', ''{'', ''}'']"

subsection \<open>The faces a state holds\<close>

definition all_faces :: "pstate \<Rightarrow> face set" where
  "all_faces s =
     (\<Union>b \<in> set (brushes s). set (faces b))
     \<union> (case current_brush s of None \<Rightarrow> {} | Some b \<Rightarrow> set (faces b))"

text \<open>One brush with a sentinel face and a face with another material.\<close>

definition two_face_text :: string where
  "two_face_text =
     join_nl [''// brush'', ''{'', ''(0)(0)(0) __TB_empty [u] [v] 0 1 1'',
              ''(0)(0)(0) m [u] [v] 0 1 1'', ''}'']"

subsection \<open>Two states that differ in the dictionary and the brush list only\<close>

definition same_locals :: "pstate \<Rightarrow> pstate \<Rightarrow> bool" where
  "same_locals s t =
     (default_texture s = default_texture t \<and> in_worldspawn s = in_worldspawn t
      \<and> in_brush s = in_brush t \<and> current_brush s = current_brush t
      \<and> brace_depth s = brace_depth t \<and> pending_brush s = pending_brush t)"

text \<open>Two texts for two calls on one converter.\<close>

definition first_text :: string where
  "first_text = join_nl [''{'', quoted_pair ''a'' ''1'', quoted_pair ''b'' ''2'', ''// brush'', ''{'', ''}'']"

definition second_text :: string where
  "second_text = join_nl [''{'', quoted_pair ''c'' ''3'', quoted_pair ''a'' ''4'', ''// brush'', ''{'', ''}'']"

subsection \<open>The fields of a face in the serialized text\<close>

text \<open>The plane, material, uaxis and vaxis lines of a side, written from six strings with
  only the parentheses, the brackets and the suffix \<open>0.25\<close> added.\<close>

definition passthrough_lines :: "string list \<Rightarrow> string list" where
  "passthrough_lines gs =
     [[tab, tab, tab] @ quoted_pair ''plane''
        (''('' @ gs ! 0 @ '') ('' @ gs ! 1 @ '') ('' @ gs ! 2 @ '')''),
      [tab, tab, tab] @ quoted_pair ''material'' (gs ! 3),
      [tab, tab, tab] @ quoted_pair ''uaxis'' (''['' @ gs ! 4 @ ''] 0.25''),
      [tab, tab, tab] @ quoted_pair ''vaxis'' (''['' @ gs ! 5 @ ''] 0.25'')]"

text \<open>The first six groups of a face line as the parser stores them: the points and
  the axes stripped, the sentinel material replaced.\<close>

definition stored_groups :: "string \<Rightarrow> string list \<Rightarrow> string list" where
  "stored_groups dt gs =
     [strip (gs ! 0), strip (gs ! 1), strip (gs ! 2),
      (if gs ! 3 = sentinel then dt else gs ! 3), strip (gs ! 4), strip (gs ! 5)]"

text \<open>A face line written as map editors write it, with blanks inside the parentheses
  and the brackets.\<close>

definition spaced_line :: string where
  "spaced_line = ''( 0 0 0 ) ( 0 0 1 ) ( 0 1 0 ) m [ 1 0 0 0 ] [ 0 1 0 0 ] 0 1 1''"

definition spaced_text :: string where
  "spaced_text = join_nl [''// brush'', ''{'', spaced_line, ''}'']"

text \<open>A brush with one face that a second marker abandons, and then an empty brush.\<close>

definition abandoned_face_text :: string where
  "abandoned_face_text =
     join_nl [''// brush'', ''{'', ''(1)(2)(3) m [u] [v] 0 1 1'', ''// brush'', ''{'', ''}'']"

section \<open>Evaluation on concrete texts\<close>

lemma digits_small: "n < 10 \<Longrightarrow> digits n = [digit_char n]"
  by (simp add: digits.simps)

lemma py_str_small:
  "py_str 1 = ''1''" "py_str 2 = ''2''" "py_str 3 = ''3''" "py_str 4 = ''4''"
  by (simp_all add: py_str_def digits_small digit_char_def)

section \<open>What a match captures\<close>

lemma greedy_split:
  "s' \<in> set (greedy C s) \<Longrightarrow> \<exists>g. s = g @ s' \<and> list_all (in_cls C) g"
proof (induction s)
  case Nil
  then show ?case by simp
next
  case (Cons x xs)
  show ?case
  proof (cases "s' = x # xs")
    case True
    then show ?thesis by simp
  next
    case False
    with Cons.prems have "in_cls C x" "s' \<in> set (greedy C xs)"
      by (auto split: if_splits)
    with Cons.IH obtain g where "xs = g @ s'" "list_all (in_cls C) g" by blast
    with \<open>in_cls C x\<close> have "x # xs = (x # g) @ s' \<and> list_all (in_cls C) (x # g)" by simp
    then show ?thesis by blast
  qed
qed

lemma group_step:
  assumes "is_group r" "s' \<in> set (rx_step r s)"
  shows "grp_ok r (take (length s - length s') s)"
proof (cases r)
  case (GStar C)
  with assms obtain g where "s = g @ s'" "list_all (in_cls C) g"
    using greedy_split by fastforce
  with GStar show ?thesis by simp
next
  case (GPlus C)
  with assms obtain x xs where s: "s = x # xs" "in_cls C x" "s' \<in> set (greedy C xs)"
    by (auto split: list.splits if_splits)
  then obtain g where "xs = g @ s'" "list_all (in_cls C) g"
    using greedy_split by blast
  with s GPlus show ?thesis by simp
qed (use assms in simp_all)

lemma rx_alts_Some:
  "rx_alts r rs s caps alts = Some res \<Longrightarrow>
     \<exists>s' \<in> set alts. rx_seq rs s' (capture r s s' caps) = Some res"
  by (induction alts) (auto split: option.splits)

lemma rx_seq_groups:
  "rx_seq rs s caps = Some res \<Longrightarrow>
     \<exists>gs. res = caps @ gs \<and> list_all2 grp_ok (filter is_group rs) gs"
proof (induction rs arbitrary: s caps)
  case Nil
  then show ?case by simp
next
  case (Cons r rs)
  from Cons.prems obtain s' where s': "s' \<in> set (rx_step r s)"
      and rest: "rx_seq rs s' (capture r s s' caps) = Some res"
    using rx_alts_Some by fastforce
  from Cons.IH [OF rest] obtain gs where gs: "res = capture r s s' caps @ gs"
      "list_all2 grp_ok (filter is_group rs) gs" by blast
  show ?case
  proof (cases "is_group r")
    case True
    from True s' have "grp_ok r (take (length s - length s') s)" by (rule group_step)
    with True gs show ?thesis by (simp add: capture_def)
  next
    case False
    with gs show ?thesis by (simp add: capture_def)
  qed
qed

lemma property_groups:
  assumes "re_match property_re l = Some gs"
  shows "\<exists>k v. gs = [k, v]"
proof -
  from assms obtain hs where "gs = [] @ hs"
      "list_all2 grp_ok (filter is_group property_re) hs"
    unfolding re_match_def using rx_seq_groups by blast
  then show ?thesis
    by (auto simp: property_re_def list_all2_Cons1)
qed

lemma py_int_digits:
  "s \<noteq> [] \<Longrightarrow> list_all isdigit s \<Longrightarrow>
     py_int s = (if length s \<le> int_max_str_digits then Inr (int_of_digits s) else Inl ValueError)"
  by (simp add: py_int_def)

lemma in_cls_Digit: "in_cls Digit = isdigit"
  by (rule ext) simp

lemma face_groups:
  assumes "re_match face_re l = Some gs"
  shows "\<exists>g1 g2 g3 mat ua va rot sx sy.
           gs = [g1, g2, g3, mat, ua, va, rot, sx, sy]
           \<and> rot \<noteq> [] \<and> list_all isdigit rot
           \<and> sx \<noteq> [] \<and> list_all isdigit sx
           \<and> sy \<noteq> [] \<and> list_all isdigit sy"
proof -
  from assms obtain hs where "gs = [] @ hs"
      "list_all2 grp_ok (filter is_group face_re) hs"
    unfolding re_match_def using rx_seq_groups by blast
  then show ?thesis
    by (auto simp: face_re_def list_all2_Cons1 in_cls_Digit)
qed

section \<open>One line of the loop, by the shape of the line\<close>

lemma add_face_eq:
  assumes "re_match face_re l = Some gs" "current_brush s = Some b"
  shows "add_face s gs =
           (if short_numbers gs then
              Inr (s\<lparr>current_brush :=
                        Some (b\<lparr>faces := faces b @ [face_of (default_texture s) gs]\<rparr>),
                      face_count := face_count s + 1,
                      material_replacements_cnt :=
                        (if gs ! 3 = sentinel then material_replacements_cnt s + 1
                         else material_replacements_cnt s)\<rparr>)
            else Inl ValueError)"
proof -
  from face_groups [OF assms(1)] obtain g1 g2 g3 mat ua va rot sx sy where
    gs: "gs = [g1, g2, g3, mat, ua, va, rot, sx, sy]"
    and d: "rot \<noteq> []" "list_all isdigit rot" "sx \<noteq> []" "list_all isdigit sx"
           "sy \<noteq> []" "list_all isdigit sy"
    by blast
  show ?thesis
    unfolding gs using d assms(2)
    by (simp add: add_face_def face_dict_def py_int_def face_of_def short_numbers_def)
qed

lemma add_face_ok:
  assumes "re_match face_re l = Some gs" "current_brush s = Some b" "short_numbers gs"
  shows "add_face s gs =
           Inr (s\<lparr>current_brush := Some (b\<lparr>faces := faces b @ [face_of (default_texture s) gs]\<rparr>),
                   face_count := face_count s + 1,
                   material_replacements_cnt :=
                     (if gs ! 3 = sentinel then material_replacements_cnt s + 1
                      else material_replacements_cnt s)\<rparr>)"
  using add_face_eq [OF assms(1,2)] assms(3) by simp

lemma set_property_ok:
  assumes "re_match property_re l = Some gs"
  shows "set_property s gs =
           Inr (s\<lparr>worldspawn_properties := AList.update (gs ! 0) (gs ! 1) (worldspawn_properties s)\<rparr>)"
proof -
  from property_groups [OF assms] obtain k v where "gs = [k, v]" by blast
  then show ?thesis by (simp add: set_property_def)
qed

lemma close_brace_eq:
  "close_brace s =
     (if brace_depth s = 1 then
        (case current_brush s of
           Some b \<Rightarrow> s\<lparr>brace_depth := 0, in_brush := False, brushes := brushes s @ [b],
                       current_brush := None\<rparr>
         | None \<Rightarrow> s\<lparr>brace_depth := 0, in_brush := False\<rparr>)
      else s\<lparr>brace_depth := brace_depth s - 1\<rparr>)"
  by (simp add: close_brace_def Let_def split: option.splits)

lemma startswith_hd: "startswith (c # cs) l \<Longrightarrow> \<exists>t. l = c # t"
  by (cases l) (simp_all add: startswith_def)

lemma marker_shape:
  assumes "startswith ''// brush'' l"
  shows "l \<noteq> ''{''" "l \<noteq> ''}''" "\<not> startswith [CHR 0x22] l" "\<not> startswith ''('' l"
  using startswith_hd [OF assms] by (auto simp: startswith_def)

lemma quote_shape:
  assumes "startswith [CHR 0x22] l"
  shows "l \<noteq> ''{''" "l \<noteq> ''}''" "\<not> startswith ''('' l"
  using startswith_hd [OF assms] by (auto simp: startswith_def)

lemma brace_shape:
  "\<not> startswith ''// brush'' ''{''" "\<not> startswith ''// brush'' ''}''"
  "\<not> startswith [CHR 0x22] ''{''" "\<not> startswith [CHR 0x22] ''}''"
  "\<not> startswith ''('' ''{''" "\<not> startswith ''('' ''}''"
  by (simp_all add: startswith_def)

lemma line_kind_iff:
  "line_kind raw = KMarker \<longleftrightarrow> startswith ''// brush'' (strip raw)"
  "line_kind raw = KOpen \<longleftrightarrow> strip raw = ''{''"
  "line_kind raw = KClose \<longleftrightarrow> strip raw = ''}''"
  "line_kind raw = KQuote \<longleftrightarrow> startswith [CHR 0x22] (strip raw)"
  "line_kind raw = KParen \<longleftrightarrow> \<not> startswith ''// brush'' (strip raw) \<and> startswith ''('' (strip raw)"
  "line_kind raw = KOther \<longleftrightarrow>
     \<not> startswith ''// brush'' (strip raw) \<and> strip raw \<noteq> ''{'' \<and> strip raw \<noteq> ''}''
     \<and> \<not> startswith [CHR 0x22] (strip raw) \<and> \<not> startswith ''('' (strip raw)"
  using marker_shape [of "strip raw"] quote_shape [of "strip raw"] brace_shape
  by (auto simp: line_kind_def Let_def)

lemma kind_marker:
  "line_kind raw = KMarker \<Longrightarrow>
     process_line s raw = Inr (s\<lparr>pending_brush := True, brush_count := brush_count s + 1\<rparr>)"
  by (simp add: line_kind_iff process_line_def Let_def)

lemma kind_open:
  assumes "line_kind raw = KOpen"
  shows "process_line s raw =
       (if pending_brush s then
          Inr (s\<lparr>in_brush := True, current_brush := Some \<lparr>faces = []\<rparr>,
                  brace_depth := 1, pending_brush := False\<rparr>)
        else if in_brush s then Inr (s\<lparr>brace_depth := brace_depth s + 1\<rparr>)
        else if in_worldspawn s then Inr s
        else Inr (s\<lparr>in_worldspawn := True\<rparr>))"
proof -
  from assms have l: "strip raw = ''{''" by (simp add: line_kind_iff)
  show ?thesis
    unfolding process_line_def Let_def l by (simp add: brace_shape)
qed

lemma kind_close:
  assumes "line_kind raw = KClose"
  shows "process_line s raw =
       (if pending_brush s then Inr s
        else if in_brush s then Inr (close_brace s)
        else if in_worldspawn s then Inr (s\<lparr>in_worldspawn := False\<rparr>)
        else Inr s)"
proof -
  from assms have l: "strip raw = ''}''" by (simp add: line_kind_iff)
  show ?thesis
    unfolding process_line_def Let_def l by (simp add: brace_shape)
qed

lemma kind_quote:
  assumes "line_kind raw = KQuote"
  shows "process_line s raw =
       (if in_worldspawn s then
          (case re_match property_re (strip raw) of
             None \<Rightarrow> Inr s
           | Some gs \<Rightarrow> set_property s gs)
        else Inr s)"
proof -
  from assms have q: "startswith [CHR 0x22] (strip raw)" by (simp add: line_kind_iff)
  from assms have m: "\<not> startswith ''// brush'' (strip raw)"
    using line_kind_iff(1) [of raw] by simp
  show ?thesis
    unfolding process_line_def Let_def using q m quote_shape [OF q] by simp
qed

lemma kind_paren:
  assumes "line_kind raw = KParen"
  shows "process_line s raw =
       (if in_brush s \<and> \<not> pending_brush s then
          (case re_match face_re (strip raw) of
             None \<Rightarrow> Inr s
           | Some gs \<Rightarrow> add_face s gs)
        else Inr s)"
proof -
  from assms have p: "startswith ''('' (strip raw)" "\<not> startswith ''// brush'' (strip raw)"
    by (simp_all add: line_kind_iff)
  from assms have n: "strip raw \<noteq> ''{''" "strip raw \<noteq> ''}''"
      "\<not> startswith [CHR 0x22] (strip raw)"
    using line_kind_iff(2,3,4) [of raw] by simp_all
  show ?thesis
    unfolding process_line_def Let_def using p n by simp
qed

lemma kind_other:
  assumes "line_kind raw = KOther"
  shows "process_line s raw = Inr s"
proof -
  from assms have n: "\<not> startswith ''// brush'' (strip raw)" "strip raw \<noteq> ''{''"
      "strip raw \<noteq> ''}''" "\<not> startswith [CHR 0x22] (strip raw)"
      "\<not> startswith ''('' (strip raw)"
    by (simp_all add: line_kind_iff)
  show ?thesis
    unfolding process_line_def Let_def using n by simp
qed

lemma is_marker_kind: "is_marker raw = (line_kind raw = KMarker)"
  by (simp add: is_marker_def line_kind_iff)

lemma upsert_event_kind:
  "upsert_event s raw =
     (if line_kind raw = KQuote \<and> in_worldspawn s then
        (case re_match property_re (strip raw) of
           Some gs \<Rightarrow> Some (gs ! 0, gs ! 1)
         | None \<Rightarrow> None)
      else None)"
  by (simp add: upsert_event_def line_kind_iff)

lemma face_event_kind:
  "face_event s raw =
     (if line_kind raw = KParen \<and> in_brush s \<and> \<not> pending_brush s
      then re_match face_re (strip raw) else None)"
  using marker_shape(4) [of "strip raw"]
  by (auto simp: face_event_def line_kind_iff)

lemma close_event_kind:
  "close_event s raw =
     (if line_kind raw = KClose \<and> in_brush s \<and> \<not> pending_brush s \<and> brace_depth s = 1
      then current_brush s else None)"
  by (simp add: close_event_def line_kind_iff)

text \<open>What a face and an assignment leave alone.\<close>

lemma add_face_frame:
  assumes "add_face s gs = Inr s'"
  shows "in_worldspawn s' = in_worldspawn s \<and> in_brush s' = in_brush s
     \<and> pending_brush s' = pending_brush s \<and> brush_count s' = brush_count s
     \<and> brushes s' = brushes s"
proof -
  from assms obtain f b where
    "s' = s\<lparr>current_brush := Some (b\<lparr>faces := faces b @ [f]\<rparr>),
            face_count := face_count s + 1,
            material_replacements_cnt :=
              (if gs ! 3 = sentinel then material_replacements_cnt s + 1
               else material_replacements_cnt s)\<rparr>"
    by (auto simp: add_face_def Let_def split: list.splits sum.splits option.splits)
  then show ?thesis by simp
qed

lemma set_property_frame:
  assumes "set_property s gs = Inr s'"
  shows "in_worldspawn s' = in_worldspawn s \<and> in_brush s' = in_brush s
     \<and> pending_brush s' = pending_brush s \<and> brush_count s' = brush_count s
     \<and> brushes s' = brushes s"
  using assms by (auto simp: set_property_def split: list.splits)

section \<open>The loop over the lines\<close>

lemmas kind_eqs = kind_marker kind_open kind_close kind_quote kind_paren kind_other
lemmas event_kinds = is_marker_kind upsert_event_kind face_event_kind close_event_kind

text \<open>What one turn of the loop does to the state, when it returns.\<close>

lemma process_line_step:
  assumes "brush_inv s" "process_line s raw = Inr s'"
  shows "brush_inv s'
     \<and> default_texture s' = default_texture s
     \<and> worldspawn_properties s' =
         (case upsert_event s raw of
            None \<Rightarrow> worldspawn_properties s
          | Some (k, v) \<Rightarrow> AList.update k v (worldspawn_properties s))
     \<and> brushes s' = brushes s @ (case close_event s raw of None \<Rightarrow> [] | Some b \<Rightarrow> [b])
     \<and> brush_count s' = brush_count s + (if is_marker raw then 1 else 0)
     \<and> face_count s' = face_count s + (case face_event s raw of None \<Rightarrow> 0 | Some gs \<Rightarrow> 1)
     \<and> material_replacements_cnt s' =
         material_replacements_cnt s
         + (case face_event s raw of
              None \<Rightarrow> 0 | Some gs \<Rightarrow> if gs ! 3 = sentinel then 1 else 0)"
proof (cases "line_kind raw")
  case KMarker
  then show ?thesis using assms by (auto simp: kind_eqs event_kinds brush_inv_def)
next
  case KOpen
  then show ?thesis using assms
    by (auto simp: kind_eqs event_kinds brush_inv_def split: if_splits)
next
  case KClose
  then show ?thesis using assms
    by (auto simp: kind_eqs event_kinds brush_inv_def close_brace_eq split: if_splits)
next
  case KQuote
  show ?thesis
  proof (cases "re_match property_re (strip raw)")
    case None
    with KQuote assms show ?thesis
      by (auto simp: kind_eqs event_kinds brush_inv_def split: if_splits)
  next
    case (Some gs)
    with KQuote assms show ?thesis
      by (auto simp: kind_eqs event_kinds brush_inv_def set_property_ok [OF Some]
          split: if_splits)
  qed
next
  case KParen
  show ?thesis
  proof (cases "in_brush s \<and> \<not> pending_brush s")
    case False
    with KParen assms show ?thesis by (auto simp: kind_eqs event_kinds brush_inv_def)
  next
    case True
    show ?thesis
    proof (cases "re_match face_re (strip raw)")
      case None
      with KParen True assms show ?thesis by (auto simp: kind_eqs event_kinds brush_inv_def)
    next
      case (Some gs)
      from True assms(1) obtain b where b: "current_brush s = Some b"
        by (auto simp: brush_inv_def)
      from KParen True Some assms show ?thesis
        by (auto simp: kind_eqs event_kinds brush_inv_def add_face_eq [OF Some b]
            split: if_splits)
    qed
  qed
next
  case KOther
  then show ?thesis using assms by (auto simp: kind_eqs event_kinds brush_inv_def)
qed

text \<open>One turn raises only at a matched face line in a brush whose numbers are too long for
  \<open>int\<close>, and then it raises \<open>ValueError\<close>.\<close>

lemma process_line_result:
  assumes "brush_inv s"
  shows "(\<exists>s'. process_line s raw = Inr s')
         \<or> (process_line s raw = Inl ValueError
            \<and> (\<exists>gs. face_event s raw = Some gs \<and> \<not> short_numbers gs))"
proof (cases "line_kind raw")
  case KQuote
  show ?thesis
  proof (cases "re_match property_re (strip raw)")
    case None
    with KQuote show ?thesis by (simp add: kind_eqs)
  next
    case (Some gs)
    with KQuote show ?thesis by (simp add: kind_eqs set_property_ok [OF Some])
  qed
next
  case KParen
  show ?thesis
  proof (cases "in_brush s \<and> \<not> pending_brush s")
    case False
    with KParen show ?thesis by (auto simp: kind_eqs)
  next
    case True
    show ?thesis
    proof (cases "re_match face_re (strip raw)")
      case None
      with KParen True show ?thesis by (simp add: kind_eqs)
    next
      case (Some gs)
      from True assms obtain b where b: "current_brush s = Some b"
        by (auto simp: brush_inv_def)
      from KParen True Some show ?thesis
        by (simp add: kind_eqs event_kinds add_face_eq [OF Some b])
    qed
  qed
qed (simp_all add: kind_eqs)

lemma process_line_total:
  assumes "brush_inv s"
    and "\<forall>gs. re_match face_re (strip raw) = Some gs \<longrightarrow> short_numbers gs"
  shows "\<exists>s'. process_line s raw = Inr s'"
proof -
  have "\<not> (\<exists>gs. face_event s raw = Some gs \<and> \<not> short_numbers gs)"
    using assms(2) by (auto simp: face_event_def split: if_splits)
  with process_line_result [OF assms(1), of raw] show ?thesis by blast
qed

lemma run_lines_summary:
  assumes "brush_inv s" "run_lines s ls = Inr s'"
  shows "brush_inv s'
     \<and> default_texture s' = default_texture s
     \<and> worldspawn_properties s' = foldl upd (worldspawn_properties s) (events upsert_event s ls)
     \<and> brushes s' = brushes s @ events close_event s ls
     \<and> brush_count s' = brush_count s + int (length (filter is_marker ls))
     \<and> face_count s' = face_count s + int (length (events face_event s ls))
     \<and> material_replacements_cnt s' =
         material_replacements_cnt s
         + int (length (filter (\<lambda>gs. gs ! 3 = sentinel) (events face_event s ls)))"
  using assms
proof (induction ls arbitrary: s)
  case Nil
  then show ?case by simp
next
  case (Cons l ls)
  from Cons.prems(2) obtain s1 where p: "process_line s l = Inr s1"
      and r: "run_lines s1 ls = Inr s'"
    by (auto split: sum.splits)
  from process_line_step [OF Cons.prems(1) p] have
    s1: "brush_inv s1"
      "default_texture s1 = default_texture s"
      "worldspawn_properties s1 =
         (case upsert_event s l of
            None \<Rightarrow> worldspawn_properties s
          | Some (k, v) \<Rightarrow> AList.update k v (worldspawn_properties s))"
      "brushes s1 = brushes s @ (case close_event s l of None \<Rightarrow> [] | Some b \<Rightarrow> [b])"
      "brush_count s1 = brush_count s + (if is_marker l then 1 else 0)"
      "face_count s1 = face_count s + (case face_event s l of None \<Rightarrow> 0 | Some gs \<Rightarrow> 1)"
      "material_replacements_cnt s1 =
         material_replacements_cnt s
         + (case face_event s l of
              None \<Rightarrow> 0 | Some gs \<Rightarrow> if gs ! 3 = sentinel then 1 else 0)"
    by blast+
  from Cons.IH [OF s1(1) r] have
    s': "brush_inv s'"
      "default_texture s' = default_texture s1"
      "worldspawn_properties s' = foldl upd (worldspawn_properties s1) (events upsert_event s1 ls)"
      "brushes s' = brushes s1 @ events close_event s1 ls"
      "brush_count s' = brush_count s1 + int (length (filter is_marker ls))"
      "face_count s' = face_count s1 + int (length (events face_event s1 ls))"
      "material_replacements_cnt s' =
         material_replacements_cnt s1
         + int (length (filter (\<lambda>gs. gs ! 3 = sentinel) (events face_event s1 ls)))"
    by blast+
  have "default_texture s' = default_texture s" using s1(2) s'(2) by simp
  moreover have "worldspawn_properties s' =
      foldl upd (worldspawn_properties s) (events upsert_event s (l # ls))"
    using p s1(3) s'(3) by (simp add: upd_def split: option.splits)
  moreover have "brushes s' = brushes s @ events close_event s (l # ls)"
    using p s1(4) s'(4) by (simp split: option.splits)
  moreover have "brush_count s' = brush_count s + int (length (filter is_marker (l # ls)))"
    using s1(5) s'(5) by simp
  moreover have "face_count s' = face_count s + int (length (events face_event s (l # ls)))"
    using p s1(6) s'(6) by (simp split: option.splits)
  moreover have "material_replacements_cnt s' =
         material_replacements_cnt s
         + int (length (filter (\<lambda>gs. gs ! 3 = sentinel) (events face_event s (l # ls))))"
    using p s1(7) s'(7) by (simp split: option.splits)
  ultimately show ?case using s'(1) by blast
qed




section \<open>The serializer\<close>

lemma side_blocks_Nil: "side_blocks n [] = []"
  by (simp add: side_blocks_def)

lemma side_blocks_Cons: "side_blocks n (f # fs) = side_lines n f @ side_blocks (n + 1) fs"
proof -
  have "map (\<lambda>j. side_lines (n + int j) ((f # fs) ! j)) [0..<Suc (length fs)]
        = side_lines n f # map (\<lambda>j. side_lines (n + 1 + int j) (fs ! j)) [0..<length fs]"
    by (simp add: map_upt_Suc add.assoc del: upt_Suc)
  then show ?thesis by (simp add: side_blocks_def del: upt_Suc)
qed

lemma emit_faces_closed:
  "emit_faces fs (vmf, n) = (vmf @ side_blocks n fs, n + int (length fs))"
  by (induction fs arbitrary: vmf n) (simp_all add: side_blocks_Nil side_blocks_Cons)

lemma faces_before_0: "faces_before bs 0 = 0"
  by (simp add: faces_before_def)

lemma faces_before_Suc: "faces_before (b # bs) (Suc i) = length (faces b) + faces_before bs i"
  by (simp add: faces_before_def)

lemma solid_blocks_Nil: "solid_blocks a n [] = []"
  by (simp add: solid_blocks_def)

lemma solid_blocks_Cons:
  "solid_blocks a n (b # bs) =
     solid_block a n b @ solid_blocks (a + 1) (n + int (length (faces b))) bs"
proof -
  have "map (\<lambda>i. solid_block (a + int i) (n + int (faces_before (b # bs) i)) ((b # bs) ! i))
            [0..<Suc (length bs)]
        = solid_block a n b #
          map (\<lambda>i. solid_block (a + 1 + int i)
                      (n + int (length (faces b)) + int (faces_before bs i)) (bs ! i))
              [0..<length bs]"
    by (simp add: map_upt_Suc faces_before_0 faces_before_Suc add.assoc del: upt_Suc)
  then show ?thesis by (simp add: solid_blocks_def del: upt_Suc)
qed

lemma emit_brushes_closed:
  "emit_brushes bs (vmf, a, n) =
     (vmf @ solid_blocks a n bs, a + int (length bs), n + int (faces_before bs (length bs)))"
proof (induction bs arbitrary: vmf a n)
  case Nil
  then show ?case by (simp add: solid_blocks_Nil faces_before_0)
next
  case (Cons b bs)
  then show ?case
    by (simp add: emit_faces_closed solid_blocks_Cons solid_block_def faces_before_Suc)
qed

lemma vmf_lines_closed:
  "vmf_lines c = world_head c @ solid_blocks 1 2 (brushes c) @ [''}'']"
  by (simp add: vmf_lines_def world_head_def emit_brushes_closed)

text \<open>
  C3. In the serialized lines the brush at position \<open>i\<close> (from 0) is the solid with
  identifier \<open>1 + i\<close>, and its face at position \<open>j\<close> is the side whose identifier is 2
  plus the number of faces of all earlier brushes plus \<open>j\<close>: one counter for the solids,
  one counter for the sides that runs through the whole document and is never reset. The
  identifier is the third line of a side block.
\<close>

theorem serial_identifiers:
  "vmf_lines c =
     world_head c
     @ concat (map (\<lambda>i.
         [[tab] @ ''solid'', [tab] @ ''{'',
          [tab, tab] @ quoted_pair ''id'' (py_str (1 + int i))]
         @ concat (map (\<lambda>j. side_lines (2 + int (faces_before (brushes c) i) + int j)
                                 (faces (brushes c ! i) ! j))
                       [0..<length (faces (brushes c ! i))])
         @ [[tab] @ ''}''])
        [0..<length (brushes c)])
     @ [''}'']
   \<and> side_lines n f ! 2 = [tab, tab, tab] @ quoted_pair ''id'' (py_str n)"
  by (simp add: vmf_lines_closed solid_blocks_def solid_block_def side_blocks_def side_lines_def)

theorem serial_identifiers_witness:
  "vmf_lines doc0 ! 5 = [tab, tab] @ quoted_pair ''id'' ''1''
   \<and> vmf_lines doc0 ! 8 = [tab, tab, tab] @ quoted_pair ''id'' ''2''
   \<and> vmf_lines doc0 ! 17 = [tab, tab, tab] @ quoted_pair ''id'' ''3''
   \<and> vmf_lines doc0 ! 27 = [tab, tab] @ quoted_pair ''id'' ''2''
   \<and> vmf_lines doc0 ! 30 = [tab, tab, tab] @ quoted_pair ''id'' ''4''"
  using serial_identifiers [of doc0 0 "face0 ''x''"]
  by (simp add: doc0_def world_head_def faces_before_def side_lines_def py_str_small upt_rec)

lemma side_blocks_map:
  assumes "\<And>n f. side_lines n (h f) = side_lines n f"
  shows "side_blocks n (map h fs) = side_blocks n fs"
  by (induction fs arbitrary: n) (simp_all add: side_blocks_Nil side_blocks_Cons assms)

lemma solid_blocks_map:
  assumes "\<And>n f. side_lines n (h f) = side_lines n f"
  shows "solid_blocks a n (map (\<lambda>b. b\<lparr>faces := map h (faces b)\<rparr>) bs) = solid_blocks a n bs"
  by (induction bs arbitrary: a n)
     (simp_all add: solid_blocks_Nil solid_blocks_Cons solid_block_def side_blocks_map assms)

lemma side_blocks_contains:
  "f \<in> set fs \<Longrightarrow> \<exists>n pre post. side_blocks k fs = pre @ side_lines n f @ post"
proof (induction fs arbitrary: k)
  case Nil
  then show ?case by simp
next
  case (Cons g fs)
  show ?case
  proof (cases "f = g")
    case True
    have "side_blocks k (g # fs) = [] @ side_lines k f @ side_blocks (k + 1) fs"
      by (simp add: side_blocks_Cons True)
    then show ?thesis by blast
  next
    case False
    with Cons.prems have "f \<in> set fs" by simp
    from Cons.IH [OF this, of "k + 1"] obtain n pre post where
      "side_blocks (k + 1) fs = pre @ side_lines n f @ post" by blast
    then have "side_blocks k (g # fs) = (side_lines k g @ pre) @ side_lines n f @ post"
      by (simp add: side_blocks_Cons)
    then show ?thesis by blast
  qed
qed

lemma solid_block_contains:
  assumes "f \<in> set (faces b)"
  shows "\<exists>n pre post. solid_block a k b = pre @ side_lines n f @ post"
proof -
  from side_blocks_contains [OF assms, of k] obtain n pre post where
    "side_blocks k (faces b) = pre @ side_lines n f @ post" by blast
  then have "solid_block a k b =
      ([[tab] @ ''solid'', [tab] @ ''{'', [tab, tab] @ quoted_pair ''id'' (py_str a)] @ pre)
      @ side_lines n f @ (post @ [[tab] @ ''}''])"
    by (simp add: solid_block_def)
  then show ?thesis by blast
qed

lemma solid_blocks_contains:
  "b \<in> set bs \<Longrightarrow> f \<in> set (faces b) \<Longrightarrow>
     \<exists>n pre post. solid_blocks a k bs = pre @ side_lines n f @ post"
proof (induction bs arbitrary: a k)
  case Nil
  then show ?case by simp
next
  case (Cons c bs)
  show ?case
  proof (cases "b = c")
    case True
    from solid_block_contains [OF Cons.prems(2), of a k] obtain n pre post where
      "solid_block a k b = pre @ side_lines n f @ post" by blast
    then have "solid_blocks a k (c # bs) =
        pre @ side_lines n f @ (post @ solid_blocks (a + 1) (k + int (length (faces c))) bs)"
      by (simp add: solid_blocks_Cons True)
    then show ?thesis by blast
  next
    case False
    with Cons.prems have "b \<in> set bs" by simp
    from Cons.IH [OF this Cons.prems(2), of "a + 1" "k + int (length (faces c))"]
    obtain n pre post where
      "solid_blocks (a + 1) (k + int (length (faces c))) bs = pre @ side_lines n f @ post"
      by blast
    then have "solid_blocks a k (c # bs) = (solid_block a k c @ pre) @ side_lines n f @ post"
      by (simp add: solid_blocks_Cons)
    then show ?thesis by blast
  qed
qed

lemma vmf_lines_contains:
  assumes "b \<in> set (brushes c)" "f \<in> set (faces b)"
  shows "\<exists>n pre post. vmf_lines c = pre @ side_lines n f @ post"
proof -
  from solid_blocks_contains [OF assms, of 1 2] obtain n pre post where
    "solid_blocks 1 2 (brushes c) = pre @ side_lines n f @ post" by blast
  then have "vmf_lines c = (world_head c @ pre) @ side_lines n f @ (post @ [''}''])"
    by (simp add: vmf_lines_closed)
  then show ?thesis by blast
qed


text \<open>
  C7. Replacing the rotation, scale_x and scale_y of every face of a document by any
  other numbers leaves the serialized text as it is. For every face of every brush of the
  document the serialized text holds the nine lines of its side block, one after the
  other; the uaxis and vaxis lines among them end in the literal \<open>0.25\<close> after the
  bracket and the lightmapscale line carries the literal \<open>16\<close>.
\<close>

theorem serial_ignores_numbers:
  "generate_vmf (with_numbers r sx sy c) = generate_vmf c
   \<and> (b \<in> set (brushes c) \<and> f \<in> set (faces b) \<longrightarrow>
        (\<exists>k pre post. generate_vmf c = join_nl (pre @ side_lines k f @ post)
           \<and> side_lines k f ! 5
               = [tab, tab, tab] @ quoted_pair ''uaxis'' (''['' @ uaxis f @ ''] 0.25'')
           \<and> side_lines k f ! 6
               = [tab, tab, tab] @ quoted_pair ''vaxis'' (''['' @ vaxis f @ ''] 0.25'')
           \<and> side_lines k f ! 7 = [tab, tab, tab] @ quoted_pair ''lightmapscale'' ''16''))
   \<and> side_lines n f ! 5 = [tab, tab, tab] @ quoted_pair ''uaxis'' (''['' @ uaxis f @ ''] 0.25'')
   \<and> side_lines n f ! 6 = [tab, tab, tab] @ quoted_pair ''vaxis'' (''['' @ vaxis f @ ''] 0.25'')
   \<and> side_lines n f ! 7 = [tab, tab, tab] @ quoted_pair ''lightmapscale'' ''16''"
proof -
  have "vmf_lines (with_numbers r sx sy c) = vmf_lines c"
    unfolding vmf_lines_closed with_numbers_def
    by (simp add: world_head_def solid_blocks_map side_lines_def)
  then have 1: "generate_vmf (with_numbers r sx sy c) = generate_vmf c"
    by (simp add: generate_vmf_def)
  have 3: "\<And>k. side_lines k f ! 5
               = [tab, tab, tab] @ quoted_pair ''uaxis'' (''['' @ uaxis f @ ''] 0.25'')"
    "\<And>k. side_lines k f ! 6
               = [tab, tab, tab] @ quoted_pair ''vaxis'' (''['' @ vaxis f @ ''] 0.25'')"
    "\<And>k. side_lines k f ! 7 = [tab, tab, tab] @ quoted_pair ''lightmapscale'' ''16''"
    by (simp_all add: side_lines_def)
  have 2: "b \<in> set (brushes c) \<and> f \<in> set (faces b) \<longrightarrow>
        (\<exists>k pre post. generate_vmf c = join_nl (pre @ side_lines k f @ post)
           \<and> side_lines k f ! 5
               = [tab, tab, tab] @ quoted_pair ''uaxis'' (''['' @ uaxis f @ ''] 0.25'')
           \<and> side_lines k f ! 6
               = [tab, tab, tab] @ quoted_pair ''vaxis'' (''['' @ vaxis f @ ''] 0.25'')
           \<and> side_lines k f ! 7 = [tab, tab, tab] @ quoted_pair ''lightmapscale'' ''16'')"
  proof
    assume "b \<in> set (brushes c) \<and> f \<in> set (faces b)"
    then have "b \<in> set (brushes c)" "f \<in> set (faces b)" by simp_all
    from vmf_lines_contains [OF this] obtain k pre post where
      "vmf_lines c = pre @ side_lines k f @ post" by blast
    then have "generate_vmf c = join_nl (pre @ side_lines k f @ post)"
      by (simp add: generate_vmf_def)
    with 3 show "\<exists>k pre post. generate_vmf c = join_nl (pre @ side_lines k f @ post)
           \<and> side_lines k f ! 5
               = [tab, tab, tab] @ quoted_pair ''uaxis'' (''['' @ uaxis f @ ''] 0.25'')
           \<and> side_lines k f ! 6
               = [tab, tab, tab] @ quoted_pair ''vaxis'' (''['' @ vaxis f @ ''] 0.25'')
           \<and> side_lines k f ! 7 = [tab, tab, tab] @ quoted_pair ''lightmapscale'' ''16''"
      by blast
  qed
  from 1 2 3 show ?thesis by (intro conjI)
qed

theorem serial_ignores_numbers_witness:
  "generate_vmf
     \<lparr>worldspawn_properties = [],
      brushes = [\<lparr>faces = [face0 ''x''\<lparr>rotation := 90, scale_x := 2, scale_y := 3\<rparr>]\<rparr>],
      default_texture = ''t''\<rparr>
   = generate_vmf
     \<lparr>worldspawn_properties = [], brushes = [\<lparr>faces = [face0 ''x'']\<rparr>], default_texture = ''t''\<rparr>
   \<and> (\<exists>k pre post.
        generate_vmf
          \<lparr>worldspawn_properties = [], brushes = [\<lparr>faces = [face0 ''x'']\<rparr>],
           default_texture = ''t''\<rparr>
        = join_nl (pre @ side_lines k (face0 ''x'') @ post)
        \<and> side_lines k (face0 ''x'') ! 7
            = [tab, tab, tab] @ quoted_pair ''lightmapscale'' ''16'')
   \<and> side_lines 2 (face0 ''x'') ! 5 = [tab, tab, tab] @ quoted_pair ''uaxis'' ''[1 0 0 0] 0.25''"
proof -
  note T = serial_ignores_numbers [of "\<lambda>f. 90" "\<lambda>f. 2" "\<lambda>f. 3"
      "\<lparr>worldspawn_properties = [], brushes = [\<lparr>faces = [face0 ''x'']\<rparr>], default_texture = ''t''\<rparr>"
      "\<lparr>faces = [face0 ''x'']\<rparr>" "face0 ''x''" 2]
  have a: "generate_vmf
     \<lparr>worldspawn_properties = [],
      brushes = [\<lparr>faces = [face0 ''x''\<lparr>rotation := 90, scale_x := 2, scale_y := 3\<rparr>]\<rparr>],
      default_texture = ''t''\<rparr>
   = generate_vmf
     \<lparr>worldspawn_properties = [], brushes = [\<lparr>faces = [face0 ''x'']\<rparr>], default_texture = ''t''\<rparr>"
    using T [THEN conjunct1] by (simp add: with_numbers_def)
  have b: "\<exists>k pre post.
        generate_vmf
          \<lparr>worldspawn_properties = [], brushes = [\<lparr>faces = [face0 ''x'']\<rparr>],
           default_texture = ''t''\<rparr>
        = join_nl (pre @ side_lines k (face0 ''x'') @ post)
        \<and> side_lines k (face0 ''x'') ! 7
            = [tab, tab, tab] @ quoted_pair ''lightmapscale'' ''16''"
    using T [THEN conjunct2, THEN conjunct1] by auto
  have c: "side_lines 2 (face0 ''x'') ! 5
      = [tab, tab, tab] @ quoted_pair ''uaxis'' ''[1 0 0 0] 0.25''"
    using T [THEN conjunct2, THEN conjunct2, THEN conjunct1] by (simp add: face0_def)
  show ?thesis by (intro conjI a b c)
qed

section \<open>When the parser raises\<close>

lemmas parse_eval =
  parse_map_file_def split_nl_def start_def process_line_def set_property_def add_face_def
  close_brace_def Let_def startswith_def strip_def isspace_def isdigit_def re_match_def
  face_re_def property_re_def capture_def sentinel_def face_dict_def py_int_def
  int_max_str_digits_def int_of_digits_def digit_val_def converter_of_def stats_of_def init_def

lemma start_inv: "brush_inv (start c)"
  by (simp add: brush_inv_def start_def)

lemma parse_returns:
  assumes "parse_map_file c m = Inr (c', st)"
  obtains s where "run_lines (start c) (split_nl m) = Inr s" "c' = converter_of s"
    "st = stats_of s"
  using assms by (auto simp: parse_map_file_def split: sum.splits)


subsection \<open>A face line with an abstract number\<close>










subsection \<open>Splitting a joined text\<close>





subsection \<open>The corrected statement\<close>





section \<open>Closing a brush\<close>

lemma property_line_eval:
  "re_match property_re (quoted_pair ''k'' ''v'') = Some [''k'', ''v'']"
  by (simp add: re_match_def property_re_def quoted_pair_def capture_def isspace_def)

lemma strip_quoted_pair_eval: "strip (quoted_pair ''k'' ''v'') = quoted_pair ''k'' ''v''"
  by (simp add: strip_def quoted_pair_def isspace_def)

text \<open>Only a \<open>{\<close> or a \<open>}\<close> read outside any brush changes the worldspawn flag.\<close>

lemma ws_step:
  assumes "process_line s l = Inr s'"
  shows "in_worldspawn s' = (case ws_event s l of None \<Rightarrow> in_worldspawn s | Some w \<Rightarrow> w)"
proof (cases "line_kind l")
  case KMarker
  then have "strip l \<noteq> ''{''" "strip l \<noteq> ''}''"
    using line_kind_iff(2,3) [of l] by simp_all
  with KMarker assms show ?thesis by (auto simp: kind_eqs ws_event_def)
next
  case KOpen
  then have "strip l = ''{''" using line_kind_iff(2) [of l] by simp
  with KOpen assms show ?thesis by (auto simp: kind_eqs ws_event_def split: if_splits)
next
  case KClose
  then have "strip l = ''}''" using line_kind_iff(3) [of l] by simp
  with KClose assms show ?thesis
    by (auto simp: kind_eqs ws_event_def close_brace_eq split: if_splits option.splits)
next
  case KQuote
  then have n: "strip l \<noteq> ''{''" "strip l \<noteq> ''}''"
    using line_kind_iff(2,3) [of l] by simp_all
  from KQuote assms have "in_worldspawn s' = in_worldspawn s"
    by (auto simp: kind_eqs split: if_splits option.splits dest: set_property_frame)
  with n show ?thesis by (simp add: ws_event_def)
next
  case KParen
  then have n: "strip l \<noteq> ''{''" "strip l \<noteq> ''}''"
    using line_kind_iff(2,3) [of l] by simp_all
  from KParen assms have "in_worldspawn s' = in_worldspawn s"
    by (auto simp: kind_eqs split: if_splits option.splits dest: add_face_frame)
  with n show ?thesis by (simp add: ws_event_def)
next
  case KOther
  then have "strip l \<noteq> ''{''" "strip l \<noteq> ''}''"
    using line_kind_iff(2,3) [of l] by simp_all
  with KOther assms show ?thesis by (auto simp: kind_eqs ws_event_def)
qed

lemma ws_run:
  "run_lines s ls = Inr t \<Longrightarrow> in_worldspawn t = last (in_worldspawn s # events ws_event s ls)"
proof (induction ls arbitrary: s)
  case Nil
  then show ?case by simp
next
  case (Cons l ls)
  from Cons.prems obtain s1 where p: "process_line s l = Inr s1"
      and r: "run_lines s1 ls = Inr t"
    by (auto split: sum.splits)
  from Cons.IH [OF r] have "in_worldspawn t = last (in_worldspawn s1 # events ws_event s1 ls)" .
  with ws_step [OF p] p show ?case
    by (cases "ws_event s l") simp_all
qed

text \<open>
  C1, as the code has it. When a line that is \<open>}\<close> after stripping is read in a brush at
  depth 1 (no marker waiting), the current brush is appended to \<open>brushes\<close> and
  \<open>in_brush\<close> is cleared; the worldspawn flag keeps its value, as it does at every line
  read while a brush is open or awaited. After any lines \<open>mid\<close> that follow the closing
  brace, the flag is what the last \<open>{\<close> or \<open>}\<close> read outside any brush made it, or what it
  was at the closing brace when there is none; and a quoted key and value line read then
  is assigned exactly when the flag is set.
\<close>

theorem brush_close_keeps_worldspawn:
  assumes "strip raw = ''}''" "in_brush s" "\<not> pending_brush s" "brace_depth s = 1"
    and "current_brush s = Some b"
    and "run_lines (s\<lparr>brace_depth := 0, in_brush := False, brushes := brushes s @ [b],
                       current_brush := None\<rparr>) mid = Inr t"
    and "startswith [CHR 0x22] (strip q)" "re_match property_re (strip q) = Some [k, v]"
  shows "\<exists>s'. process_line s raw = Inr s'
           \<and> s' = s\<lparr>brace_depth := 0, in_brush := False, brushes := brushes s @ [b],
                     current_brush := None\<rparr>
           \<and> in_worldspawn s' = in_worldspawn s
           \<and> in_worldspawn t = last (in_worldspawn s # events ws_event s' mid)
           \<and> process_line t q =
               Inr (if in_worldspawn t
                    then t\<lparr>worldspawn_properties := AList.update k v (worldspawn_properties t)\<rparr>
                    else t)
           \<and> (process_line t0 l0 = Inr t1 \<and> (in_brush t0 \<or> pending_brush t0) \<longrightarrow>
                in_worldspawn t1 = in_worldspawn t0)"
proof -
  have c: "line_kind raw = KClose" using assms(1) by (simp add: line_kind_iff)
  have q: "line_kind q = KQuote" using assms(7) by (simp add: line_kind_iff)
  let ?s' = "s\<lparr>brace_depth := 0, in_brush := False, brushes := brushes s @ [b],
                current_brush := None\<rparr>"
  have 1: "process_line s raw = Inr ?s'"
    using assms(2-5) by (simp add: kind_close [OF c] close_brace_eq)
  have 2: "in_worldspawn t = last (in_worldspawn s # events ws_event ?s' mid)"
    using ws_run [OF assms(6)] by simp
  have 3: "process_line t q =
               Inr (if in_worldspawn t
                    then t\<lparr>worldspawn_properties := AList.update k v (worldspawn_properties t)\<rparr>
                    else t)"
    using assms(8) by (simp add: kind_quote [OF q] set_property_def)
  have 4: "process_line t0 l0 = Inr t1 \<and> (in_brush t0 \<or> pending_brush t0) \<longrightarrow>
                in_worldspawn t1 = in_worldspawn t0"
  proof
    assume a: "process_line t0 l0 = Inr t1 \<and> (in_brush t0 \<or> pending_brush t0)"
    then have "ws_event t0 l0 = None" by (auto simp: ws_event_def)
    with ws_step [of t0 l0 t1] a show "in_worldspawn t1 = in_worldspawn t0" by simp
  qed
  from 1 2 3 4 show ?thesis by simp
qed

theorem brush_close_keeps_worldspawn_witness:
  "process_line in_nested_brush ''}''
     = Inr (in_nested_brush\<lparr>brace_depth := 0, in_brush := False, brushes := [\<lparr>faces = []\<rparr>],
                             current_brush := None\<rparr>)
   \<and> run_lines
       (in_nested_brush\<lparr>brace_depth := 0, in_brush := False, brushes := [\<lparr>faces = []\<rparr>],
                         current_brush := None\<rparr>) more_brush_lines
     = Inr (in_nested_brush\<lparr>brace_depth := 0, in_brush := False,
                             brushes := [\<lparr>faces = []\<rparr>, \<lparr>faces = []\<rparr>],
                             current_brush := None, brush_count := 2\<rparr>)
   \<and> process_line
       (in_nested_brush\<lparr>brace_depth := 0, in_brush := False,
                         brushes := [\<lparr>faces = []\<rparr>, \<lparr>faces = []\<rparr>],
                         current_brush := None, brush_count := 2\<rparr>)
       (quoted_pair ''k'' ''v'')
     = Inr (in_nested_brush\<lparr>brace_depth := 0, in_brush := False,
                             brushes := [\<lparr>faces = []\<rparr>, \<lparr>faces = []\<rparr>],
                             current_brush := None, brush_count := 2,
                             worldspawn_properties := [(''k'', ''v'')]\<rparr>)"
proof -
  have h: "strip ''}'' = ''}''" "startswith [CHR 0x22] (strip (quoted_pair ''k'' ''v''))"
    by (simp_all add: strip_def isspace_def quoted_pair_def startswith_def)
  have i: "in_brush in_nested_brush" "\<not> pending_brush in_nested_brush"
      "brace_depth in_nested_brush = 1" "current_brush in_nested_brush = Some \<lparr>faces = []\<rparr>"
      "in_worldspawn in_nested_brush" "brushes in_nested_brush = []"
    by (simp_all add: in_nested_brush_def)
  have r: "run_lines
       (in_nested_brush\<lparr>brace_depth := 0, in_brush := False,
                         brushes := brushes in_nested_brush @ [\<lparr>faces = []\<rparr>],
                         current_brush := None\<rparr>) more_brush_lines
     = Inr (in_nested_brush\<lparr>brace_depth := 0, in_brush := False,
                             brushes := [\<lparr>faces = []\<rparr>, \<lparr>faces = []\<rparr>],
                             current_brush := None, brush_count := 2\<rparr>)"
    by (simp add: more_brush_lines_def in_nested_brush_def parse_eval)
  have m: "re_match property_re (strip (quoted_pair ''k'' ''v'')) = Some [''k'', ''v'']"
    by (simp add: strip_quoted_pair_eval property_line_eval)
  from brush_close_keeps_worldspawn [OF h(1) i(1-4) r h(2) m]
  obtain s' where
    1: "process_line in_nested_brush ''}'' = Inr s'"
    and 2: "s' = in_nested_brush\<lparr>brace_depth := 0, in_brush := False,
                   brushes := brushes in_nested_brush @ [\<lparr>faces = []\<rparr>],
                   current_brush := None\<rparr>"
    and 3: "in_worldspawn
              (in_nested_brush\<lparr>brace_depth := 0, in_brush := False,
                             brushes := [\<lparr>faces = []\<rparr>, \<lparr>faces = []\<rparr>],
                             current_brush := None, brush_count := 2\<rparr>)
            = last (in_worldspawn in_nested_brush # events ws_event s' more_brush_lines)"
    and 4: "process_line
       (in_nested_brush\<lparr>brace_depth := 0, in_brush := False,
                         brushes := [\<lparr>faces = []\<rparr>, \<lparr>faces = []\<rparr>],
                         current_brush := None, brush_count := 2\<rparr>)
       (quoted_pair ''k'' ''v'')
     = Inr (if in_worldspawn
              (in_nested_brush\<lparr>brace_depth := 0, in_brush := False,
                             brushes := [\<lparr>faces = []\<rparr>, \<lparr>faces = []\<rparr>],
                             current_brush := None, brush_count := 2\<rparr>)
            then in_nested_brush\<lparr>brace_depth := 0, in_brush := False,
                             brushes := [\<lparr>faces = []\<rparr>, \<lparr>faces = []\<rparr>],
                             current_brush := None, brush_count := 2\<rparr>
                 \<lparr>worldspawn_properties := AList.update ''k'' ''v''
                    (worldspawn_properties
                      (in_nested_brush\<lparr>brace_depth := 0, in_brush := False,
                             brushes := [\<lparr>faces = []\<rparr>, \<lparr>faces = []\<rparr>],
                             current_brush := None, brush_count := 2\<rparr>))\<rparr>
            else in_nested_brush\<lparr>brace_depth := 0, in_brush := False,
                             brushes := [\<lparr>faces = []\<rparr>, \<lparr>faces = []\<rparr>],
                             current_brush := None, brush_count := 2\<rparr>)"
    by blast
  have a: "process_line in_nested_brush ''}''
     = Inr (in_nested_brush\<lparr>brace_depth := 0, in_brush := False, brushes := [\<lparr>faces = []\<rparr>],
                             current_brush := None\<rparr>)"
    using 1 2 by (simp add: i)
  have b: "run_lines
       (in_nested_brush\<lparr>brace_depth := 0, in_brush := False, brushes := [\<lparr>faces = []\<rparr>],
                         current_brush := None\<rparr>) more_brush_lines
     = Inr (in_nested_brush\<lparr>brace_depth := 0, in_brush := False,
                             brushes := [\<lparr>faces = []\<rparr>, \<lparr>faces = []\<rparr>],
                             current_brush := None, brush_count := 2\<rparr>)"
    using r by (simp add: i)
  have c: "process_line
       (in_nested_brush\<lparr>brace_depth := 0, in_brush := False,
                         brushes := [\<lparr>faces = []\<rparr>, \<lparr>faces = []\<rparr>],
                         current_brush := None, brush_count := 2\<rparr>)
       (quoted_pair ''k'' ''v'')
     = Inr (in_nested_brush\<lparr>brace_depth := 0, in_brush := False,
                             brushes := [\<lparr>faces = []\<rparr>, \<lparr>faces = []\<rparr>],
                             current_brush := None, brush_count := 2,
                             worldspawn_properties := [(''k'', ''v'')]\<rparr>)"
    using 4 by (simp add: in_nested_brush_def)
  show ?thesis by (intro conjI a b c)
qed

text \<open>
  C1 as stated fails on the text \<open>nested_text\<close>: the brush closes at the fourth line, no
  \<open>{\<close> follows, and the property line after the closing brace is still assigned. After
  the closing brace the worldspawn flag is set, so the parser is not outside.
\<close>

theorem brush_close_outside_counterexample:
  "parse_map_file (init ''t'') nested_text
     = Inr (\<lparr>worldspawn_properties = [(''k'', ''v'')], brushes = [\<lparr>faces = []\<rparr>],
             default_texture = ''t''\<rparr>,
            \<lparr>brushes_found = 1, brushes_processed = 1, faces_processed = 0,
             material_replacements = 0\<rparr>)
   \<and> run_lines (start (init ''t'')) [''{'', ''// brush'', ''{'', ''}'']
     = Inr \<lparr>worldspawn_properties = [], brushes = [\<lparr>faces = []\<rparr>], default_texture = ''t'',
            in_worldspawn = True, in_brush = False, current_brush = None,
            brace_depth = 0, pending_brush = False, brush_count = 1, face_count = 0,
            material_replacements_cnt = 0\<rparr>"
  by (simp add: nested_text_def quoted_pair_def parse_eval)

section \<open>Duplicate keys\<close>

lemma map_of_foldl_upd: "map_of (foldl upd m ws) = map_of m ++ map_of (rev ws)"
proof (induction ws arbitrary: m)
  case Nil
  then show ?case by simp
next
  case (Cons kv ws)
  have a: "map_of (upd m kv) = map_of m ++ map_of [kv]"
    by (cases kv) (simp add: upd_def update_conv')
  have "map_of (foldl upd m (kv # ws)) = map_of (upd m kv) ++ map_of (rev ws)"
    using Cons.IH [of "upd m kv"] by simp
  also have "\<dots> = map_of m ++ (map_of [kv] ++ map_of (rev ws))"
    by (simp only: a map_add_assoc)
  also have "map_of [kv] ++ map_of (rev ws) = map_of (rev (kv # ws))"
    by (simp only: rev.simps map_of_append)
  finally show ?case .
qed

lemma first_write_order_snoc:
  "first_write_order (ws @ [kv]) =
     (if fst kv \<in> set (first_write_order ws) then first_write_order ws
      else first_write_order ws @ [fst kv])"
  by (simp add: first_write_order_def)

lemma keys_foldl_upd: "map fst (foldl upd [] ws) = first_write_order ws"
proof (induction ws rule: rev_induct)
  case Nil
  then show ?case by (simp add: first_write_order_def)
next
  case (snoc kv ws)
  then show ?case
    by (simp add: first_write_order_snoc upd_def update_keys)
qed

text \<open>
  C2, as the code has it. When \<open>parse_map_file\<close> returns on a fresh converter, then with
  the assignments that the loop makes in order, the final dictionary maps every key to the
  value of its last assignment, and its keys stand in the order of their first
  assignment; the serialized text lists the properties in that order after the three
  opening lines and before the solids.
\<close>

theorem duplicate_keys:
  assumes "parse_map_file (init dt) map_content = Inr (c', st)"
  shows "map_of (worldspawn_properties c')
         = map_of (rev (events upsert_event (start (init dt)) (split_nl map_content)))
     \<and> map fst (worldspawn_properties c')
         = first_write_order (events upsert_event (start (init dt)) (split_nl map_content))
     \<and> vmf_lines c'
         = [''world'', ''{'', [tab] @ quoted_pair ''id'' ''0'']
           @ map (\<lambda>(k, v). [tab] @ quoted_pair k v) (worldspawn_properties c')
           @ solid_blocks 1 2 (brushes c') @ [''}'']"
proof -
  from assms obtain s where
    s: "run_lines (start (init dt)) (split_nl map_content) = Inr s" and c': "c' = converter_of s"
    by (rule parse_returns)
  from run_lines_summary [OF start_inv s] have
    "worldspawn_properties s
          = foldl upd (worldspawn_properties (start (init dt)))
              (events upsert_event (start (init dt)) (split_nl map_content))"
    by blast
  then have p: "worldspawn_properties c'
      = foldl upd [] (events upsert_event (start (init dt)) (split_nl map_content))"
    by (simp add: c' converter_of_def start_def init_def)
  have 1: "map_of (worldspawn_properties c')
         = map_of (rev (events upsert_event (start (init dt)) (split_nl map_content)))"
    by (simp add: p map_of_foldl_upd)
  have 2: "map fst (worldspawn_properties c')
         = first_write_order (events upsert_event (start (init dt)) (split_nl map_content))"
    by (simp add: p keys_foldl_upd)
  have 3: "vmf_lines c'
         = [''world'', ''{'', [tab] @ quoted_pair ''id'' ''0'']
           @ map (\<lambda>(k, v). [tab] @ quoted_pair k v) (worldspawn_properties c')
           @ solid_blocks 1 2 (brushes c') @ [''}'']"
    by (simp add: vmf_lines_closed world_head_def)
  show ?thesis by (intro conjI 1 2 3)
qed

lemma dup_text_run:
  "parse_map_file (init ''t'') dup_text
     = Inr (\<lparr>worldspawn_properties = [(''a'', ''3''), (''b'', ''2'')], brushes = [],
             default_texture = ''t''\<rparr>,
            \<lparr>brushes_found = 0, brushes_processed = 0, faces_processed = 0,
             material_replacements = 0\<rparr>)"
  by (simp add: dup_text_def quoted_pair_def parse_eval)

lemma dup_text_events:
  "events upsert_event (start (init ''t'')) (split_nl dup_text)
     = [(''a'', ''1''), (''b'', ''2''), (''a'', ''3'')]"
  by (simp add: dup_text_def quoted_pair_def upsert_event_def parse_eval)

theorem duplicate_keys_witness:
  "\<exists>c' st. parse_map_file (init ''t'') dup_text = Inr (c', st)
     \<and> map_of (worldspawn_properties c') ''a'' = Some ''3''
     \<and> map fst (worldspawn_properties c') = [''a'', ''b'']"
  using duplicate_keys [OF dup_text_run] dup_text_run
  by (simp add: dup_text_events first_write_order_def)

text \<open>
  C2 as stated fails on \<open>dup_text\<close>, which assigns \<open>a\<close>, \<open>b\<close> and \<open>a\<close> again: the order
  set by the last assignments is \<open>b, a\<close>, but the dictionary and the serialized text
  have \<open>a\<close> (with its last value) before \<open>b\<close>.
\<close>

theorem last_write_position_counterexample:
  "parse_map_file (init ''t'') dup_text
     = Inr (\<lparr>worldspawn_properties = [(''a'', ''3''), (''b'', ''2'')], brushes = [],
             default_texture = ''t''\<rparr>,
            \<lparr>brushes_found = 0, brushes_processed = 0, faces_processed = 0,
             material_replacements = 0\<rparr>)
   \<and> events upsert_event (start (init ''t'')) (split_nl dup_text)
     = [(''a'', ''1''), (''b'', ''2''), (''a'', ''3'')]
   \<and> last_write_order [(''a'', ''1''), (''b'', ''2''), (''a'', ''3'')] = [''b'', ''a'']
   \<and> vmf_lines \<lparr>worldspawn_properties = [(''a'', ''3''), (''b'', ''2'')], brushes = [],
                 default_texture = ''t''\<rparr>
     = [''world'', ''{'', [tab] @ quoted_pair ''id'' ''0'',
        [tab] @ quoted_pair ''a'' ''3'', [tab] @ quoted_pair ''b'' ''2'', ''}'']"
  by (simp add: dup_text_run dup_text_events last_write_order_def vmf_lines_def)

section \<open>A marker inside an open brush\<close>

lemma pending_step:
  assumes "pending_brush s" "strip raw \<noteq> ''{''"
  shows "process_line s raw =
           Inr (s\<lparr>brush_count := brush_count s + (if is_marker raw then 1 else 0),
                   worldspawn_properties :=
                     foldl upd (worldspawn_properties s) (events upsert_event s [raw])\<rparr>)"
proof (cases "line_kind raw")
  case KMarker
  then show ?thesis using assms(1) by (simp add: kind_eqs event_kinds)
next
  case KOpen
  with assms(2) show ?thesis by (simp add: line_kind_iff)
next
  case KClose
  then show ?thesis using assms(1) by (simp add: kind_eqs event_kinds)
next
  case KQuote
  show ?thesis
  proof (cases "in_worldspawn s")
    case False
    with KQuote show ?thesis by (simp add: kind_eqs event_kinds)
  next
    case True
    show ?thesis
    proof (cases "re_match property_re (strip raw)")
      case None
      with KQuote True show ?thesis by (simp add: kind_eqs event_kinds)
    next
      case (Some gs)
      with KQuote True show ?thesis
        by (simp add: kind_eqs event_kinds set_property_ok [OF Some] upd_def)
    qed
  qed
next
  case KParen
  then show ?thesis using assms(1) by (simp add: kind_eqs event_kinds)
next
  case KOther
  then show ?thesis using assms(1) by (simp add: kind_eqs event_kinds)
qed

lemma pending_run:
  assumes "pending_brush s" "\<forall>l \<in> set ls. strip l \<noteq> ''{''"
  shows "run_lines s ls =
           Inr (s\<lparr>brush_count := brush_count s + int (length (filter is_marker ls)),
                   worldspawn_properties :=
                     foldl upd (worldspawn_properties s) (events upsert_event s ls)\<rparr>)"
  using assms
proof (induction ls arbitrary: s)
  case Nil
  then show ?case by simp
next
  case (Cons l ls)
  define s1 where "s1 = s\<lparr>brush_count := brush_count s + (if is_marker l then 1 else 0),
                worldspawn_properties :=
                  foldl upd (worldspawn_properties s) (events upsert_event s [l])\<rparr>"
  have "strip l \<noteq> ''{''" using Cons.prems(2) by simp
  then have 1: "process_line s l = Inr s1"
    unfolding s1_def by (rule pending_step [OF Cons.prems(1)])
  have 2: "pending_brush s1" using Cons.prems(1) by (simp add: s1_def)
  have 3: "\<forall>l \<in> set ls. strip l \<noteq> ''{''" using Cons.prems(2) by simp
  have 4: "run_lines s1 ls =
           Inr (s1\<lparr>brush_count := brush_count s1 + int (length (filter is_marker ls)),
                    worldspawn_properties :=
                      foldl upd (worldspawn_properties s1) (events upsert_event s1 ls)\<rparr>)"
    by (rule Cons.IH [OF 2 3])
  have 5: "events upsert_event s (l # ls) = events upsert_event s [l] @ events upsert_event s1 ls"
    using 1 by simp
  have 6: "s1\<lparr>brush_count := brush_count s1 + int (length (filter is_marker ls)),
              worldspawn_properties :=
                foldl upd (worldspawn_properties s1) (events upsert_event s1 ls)\<rparr>
         = s\<lparr>brush_count := brush_count s + int (length (filter is_marker (l # ls))),
              worldspawn_properties :=
                foldl upd (worldspawn_properties s) (events upsert_event s (l # ls))\<rparr>"
    unfolding 5 by (simp add: s1_def)
  have "run_lines s (l # ls) = run_lines s1 ls" using 1 by simp
  then show ?case unfolding 4 6 .
qed

text \<open>
  C10. A brush is open in state \<open>s\<close>; a marker line \<open>m\<close> is read, then lines \<open>mid\<close> none
  of which is \<open>{\<close>, then a line \<open>ob\<close> that is \<open>{\<close> (all after stripping). Up to \<open>ob\<close> the
  loop only counts the markers and assigns properties: nothing is appended to \<open>brushes\<close>,
  not even at a \<open>}\<close> among \<open>mid\<close>, and the face counter keeps the faces of the open brush.
  At \<open>ob\<close> the current brush is replaced by a fresh empty one at depth 1, so the brush
  that was open and its faces are in no later state.
\<close>

theorem marker_abandons_open_brush:
  assumes "in_brush s" "is_marker m" "\<forall>l \<in> set mid. strip l \<noteq> ''{''" "strip ob = ''{''"
  shows "\<exists>s1. run_lines s (m # mid) = Inr s1
           \<and> s1 = s\<lparr>pending_brush := True,
                     brush_count := brush_count s + 1 + int (length (filter is_marker mid)),
                     worldspawn_properties :=
                       foldl upd (worldspawn_properties s) (events upsert_event s (m # mid))\<rparr>
           \<and> brushes s1 = brushes s \<and> face_count s1 = face_count s
           \<and> run_lines s (m # mid @ [ob]) =
               Inr (s1\<lparr>in_brush := True, current_brush := Some \<lparr>faces = []\<rparr>,
                        brace_depth := 1, pending_brush := False\<rparr>)"
proof -
  have k: "line_kind m = KMarker" using assms(2) by (simp add: is_marker_kind)
  let ?s0 = "s\<lparr>pending_brush := True, brush_count := brush_count s + 1\<rparr>"
  have 0: "process_line s m = Inr ?s0" by (simp add: kind_marker [OF k])
  have u: "upsert_event s m = None" using k by (simp add: upsert_event_kind)
  have p: "pending_brush ?s0" by simp
  let ?s1 = "?s0\<lparr>brush_count := brush_count ?s0 + int (length (filter is_marker mid)),
                  worldspawn_properties :=
                    foldl upd (worldspawn_properties ?s0) (events upsert_event ?s0 mid)\<rparr>"
  have 1: "run_lines ?s0 mid = Inr ?s1"
    by (rule pending_run [OF p assms(3)])
  have o: "line_kind ob = KOpen" using assms(4) by (simp add: line_kind_iff)
  have 2: "process_line ?s1 ob =
             Inr (?s1\<lparr>in_brush := True, current_brush := Some \<lparr>faces = []\<rparr>,
                       brace_depth := 1, pending_brush := False\<rparr>)"
    by (simp add: kind_open [OF o])
  have app: "\<And>t ls l. run_lines t (ls @ [l]) =
      (case run_lines t ls of Inl e \<Rightarrow> Inl e | Inr t' \<Rightarrow> process_line t' l)"
  proof -
    fix t ls l
    show "run_lines t (ls @ [l]) =
      (case run_lines t ls of Inl e \<Rightarrow> Inl e | Inr t' \<Rightarrow> process_line t' l)"
      by (induction ls arbitrary: t) (simp_all split: sum.splits)
  qed
  have 3: "run_lines s (m # mid) = Inr ?s1" using 0 1 by simp
  have 4: "run_lines s (m # mid @ [ob]) =
             Inr (?s1\<lparr>in_brush := True, current_brush := Some \<lparr>faces = []\<rparr>,
                       brace_depth := 1, pending_brush := False\<rparr>)"
    using 0 1 2 by (simp add: app)
  have ev: "events upsert_event s (m # mid) = events upsert_event ?s0 mid"
    using 0 u by simp
  have 5: "?s1 = s\<lparr>pending_brush := True,
                     brush_count := brush_count s + 1 + int (length (filter is_marker mid)),
                     worldspawn_properties :=
                       foldl upd (worldspawn_properties s) (events upsert_event s (m # mid))\<rparr>"
    unfolding ev by simp
  have 6: "brushes ?s1 = brushes s" "face_count ?s1 = face_count s" by simp_all
  show ?thesis
    using 3 4 6 unfolding 5 by blast
qed

theorem marker_abandons_open_brush_witness:
  "run_lines with_open_face abandoned_lines
     = Inr (with_open_face\<lparr>brush_count := 2, current_brush := Some \<lparr>faces = []\<rparr>\<rparr>)"
proof -
  have h: "in_brush with_open_face" "is_marker ''// brush 1''"
      "\<forall>l \<in> set [''}'']. strip l \<noteq> ''{''" "strip ''{'' = ''{''"
    by (simp_all add: with_open_face_def is_marker_def startswith_def strip_def isspace_def)
  have e: "events upsert_event with_open_face [''// brush 1'', ''}''] = []"
    by (simp add: upsert_event_def with_open_face_def parse_eval)
  have m: "filter is_marker [''}''] = []"
    by (simp add: is_marker_def startswith_def strip_def isspace_def)
  from marker_abandons_open_brush [OF h] obtain s1 where
    s1: "s1 = with_open_face\<lparr>pending_brush := True,
             brush_count := brush_count with_open_face + 1 + int (length (filter is_marker [''}''])),
             worldspawn_properties :=
               foldl upd (worldspawn_properties with_open_face)
                 (events upsert_event with_open_face [''// brush 1'', ''}''])\<rparr>"
    and r: "run_lines with_open_face (''// brush 1'' # [''}''] @ [''{'']) =
               Inr (s1\<lparr>in_brush := True, current_brush := Some \<lparr>faces = []\<rparr>,
                        brace_depth := 1, pending_brush := False\<rparr>)"
    by blast
  have "s1\<lparr>in_brush := True, current_brush := Some \<lparr>faces = []\<rparr>,
            brace_depth := 1, pending_brush := False\<rparr>
        = with_open_face\<lparr>brush_count := 2, current_brush := Some \<lparr>faces = []\<rparr>\<rparr>"
    unfolding s1 e m by (simp add: with_open_face_def)
  with r show ?thesis by (simp add: abandoned_lines_def)
qed

section \<open>Brushes found and brushes processed\<close>

lemma slack_step:
  assumes "brush_inv s" "process_line s l = Inr s1"
  shows "slack s + int (orphan_markers (l # ls)) + lost s (l # ls)
         \<le> slack s1 + int (orphan_markers ls) + lost s1 ls"
proof (cases "line_kind l")
  case KMarker
  with assms(2) show ?thesis
    by (auto simp: kind_eqs is_marker_kind slack_def lost_def)
next
  case KOpen
  then have "strip l = ''{''" "\<not> is_marker l"
    using line_kind_iff(2) [of l] by (simp_all add: is_marker_kind)
  with KOpen assms(2) show ?thesis
    by (auto simp: kind_eqs slack_def lost_def split: if_splits)
next
  case KClose
  then have "strip l \<noteq> ''{''" "\<not> is_marker l"
    using line_kind_iff(2) [of l] by (simp_all add: is_marker_kind)
  with KClose assms show ?thesis
    by (auto simp: kind_eqs slack_def lost_def close_brace_eq brush_inv_def split: if_splits)
next
  case KQuote
  then have n: "strip l \<noteq> ''{''" "\<not> is_marker l"
    using line_kind_iff(2) [of l] by (simp_all add: is_marker_kind)
  from KQuote assms(2) have "in_brush s1 = in_brush s \<and> pending_brush s1 = pending_brush s
      \<and> brush_count s1 = brush_count s \<and> brushes s1 = brushes s"
    by (auto simp: kind_eqs split: if_splits option.splits dest: set_property_frame)
  with n show ?thesis by (simp add: slack_def lost_def)
next
  case KParen
  then have n: "strip l \<noteq> ''{''" "\<not> is_marker l"
    using line_kind_iff(2) [of l] by (simp_all add: is_marker_kind)
  from KParen assms(2) have "in_brush s1 = in_brush s \<and> pending_brush s1 = pending_brush s
      \<and> brush_count s1 = brush_count s \<and> brushes s1 = brushes s"
    by (auto simp: kind_eqs split: if_splits option.splits dest: add_face_frame)
  with n show ?thesis by (simp add: slack_def lost_def)
next
  case KOther
  then have "strip l \<noteq> ''{''" "\<not> is_marker l"
    using line_kind_iff(2) [of l] by (simp_all add: is_marker_kind)
  with KOther assms(2) show ?thesis
    by (auto simp: kind_eqs slack_def lost_def)
qed

lemma slack_run:
  assumes "brush_inv s" "run_lines s ls = Inr s'"
  shows "slack s + int (orphan_markers ls) + lost s ls
           \<le> brush_count s' - int (length (brushes s'))"
  using assms
proof (induction ls arbitrary: s)
  case Nil
  then show ?case by (simp add: slack_def lost_def)
next
  case (Cons l ls)
  from Cons.prems(2) obtain s1 where s1: "process_line s l = Inr s1"
      and r: "run_lines s1 ls = Inr s'"
    by (auto split: sum.splits)
  from slack_step [OF Cons.prems(1) s1, of ls]
  have le: "slack s + int (orphan_markers (l # ls)) + lost s (l # ls)
         \<le> slack s1 + int (orphan_markers ls) + lost s1 ls" .
  from process_line_step [OF Cons.prems(1) s1] have inv: "brush_inv s1" by blast
  from Cons.IH [OF inv r] le show ?case by linarith
qed

text \<open>
  C5. When \<open>parse_map_file\<close> returns on a fresh converter, \<open>brushes_processed\<close> is the
  number of closing braces that end a brush (a line \<open>}\<close> read in a brush at depth 1),
  \<open>brushes_found\<close> is the number of lines that begin with \<open>// brush\<close> after stripping, and
  the processed brushes together with the markers that no \<open>{\<close> follows before the next
  marker or the end of the text are at most the brushes found.
\<close>

theorem brushes_processed_le_found:
  assumes "parse_map_file (init dt) map_content = Inr (c', st)"
  shows "brushes_processed st
         = int (length (events close_event (start (init dt)) (split_nl map_content)))
     \<and> brushes_processed st = int (length (brushes c'))
     \<and> brushes_found st = int (length (filter is_marker (split_nl map_content)))
     \<and> brushes_processed st + int (orphan_markers (split_nl map_content)) \<le> brushes_found st
     \<and> brushes_processed st \<le> brushes_found st"
proof -
  let ?ls = "split_nl map_content"
  from assms obtain s where
    s: "run_lines (start (init dt)) ?ls = Inr s" and c': "c' = converter_of s"
    and st: "st = stats_of s"
    by (rule parse_returns)
  from run_lines_summary [OF start_inv s] have
    t: "brushes s = brushes (start (init dt)) @ events close_event (start (init dt)) ?ls"
       "brush_count s = brush_count (start (init dt)) + int (length (filter is_marker ?ls))"
    by blast+
  from slack_run [OF start_inv s]
  have le: "int (orphan_markers ?ls) \<le> brush_count s - int (length (brushes s))"
    by (simp add: slack_def lost_def start_def init_def)
  have 1: "brushes_processed st
         = int (length (events close_event (start (init dt)) ?ls))"
    using t(1) by (simp add: st stats_of_def start_def init_def)
  have 2: "brushes_processed st = int (length (brushes c'))"
    by (simp add: st c' stats_of_def converter_of_def)
  have 3: "brushes_found st = int (length (filter is_marker ?ls))"
    using t(2) by (simp add: st stats_of_def start_def)
  have 4: "brushes_processed st + int (orphan_markers ?ls) \<le> brushes_found st"
    using le by (simp add: st stats_of_def)
  have 5: "brushes_processed st \<le> brushes_found st"
    using le by (simp add: st stats_of_def)
  show ?thesis by (intro conjI 1 2 3 4 5)
qed

lemma orphan_text_run:
  "parse_map_file (init ''t'') orphan_text
     = Inr (\<lparr>worldspawn_properties = [], brushes = [\<lparr>faces = []\<rparr>], default_texture = ''t''\<rparr>,
            \<lparr>brushes_found = 2, brushes_processed = 1, faces_processed = 0,
             material_replacements = 0\<rparr>)"
  by (simp add: orphan_text_def parse_eval converter_of_def stats_of_def)

theorem brushes_processed_le_found_witness:
  "\<exists>c' st. parse_map_file (init ''t'') orphan_text = Inr (c', st)
     \<and> brushes_processed st = 1 \<and> brushes_found st = 2
     \<and> orphan_markers (split_nl orphan_text) = 1"
proof -
  have o: "orphan_markers (split_nl orphan_text) = 1"
    by (simp add: orphan_text_def split_nl_def is_marker_def startswith_def strip_def isspace_def)
  have m: "filter is_marker (split_nl orphan_text) = [''// brush 0'', ''// brush 1'']"
    by (simp add: orphan_text_def split_nl_def is_marker_def startswith_def strip_def isspace_def)
  have e: "events close_event (start (init ''t'')) (split_nl orphan_text) = [\<lparr>faces = []\<rparr>]"
    by (simp add: orphan_text_def close_event_def parse_eval)
  from brushes_processed_le_found [OF orphan_text_run] orphan_text_run show ?thesis
    by (simp add: o m e)
qed

section \<open>Where the faces of the document come from\<close>

lemma faces_step:
  assumes "brush_inv s" "process_line s l = Inr s1"
  shows "all_faces s1 \<subseteq>
           all_faces s
           \<union> (case face_event s l of None \<Rightarrow> {} | Some gs \<Rightarrow> {face_of (default_texture s) gs})"
proof (cases "line_kind l")
  case KMarker
  with assms(2) show ?thesis by (auto simp: kind_eqs all_faces_def)
next
  case KOpen
  with assms(2) show ?thesis by (auto simp: kind_eqs all_faces_def split: if_splits)
next
  case KClose
  with assms(2) show ?thesis
    by (auto simp: kind_eqs all_faces_def close_brace_eq split: if_splits option.splits)
next
  case KQuote
  show ?thesis
  proof (cases "re_match property_re (strip l)")
    case None
    with KQuote assms(2) show ?thesis by (auto simp: kind_eqs all_faces_def split: if_splits)
  next
    case (Some gs)
    with KQuote assms(2) show ?thesis
      by (auto simp: kind_eqs all_faces_def set_property_ok [OF Some] split: if_splits)
  qed
next
  case KParen
  show ?thesis
  proof (cases "in_brush s \<and> \<not> pending_brush s")
    case False
    with KParen assms(2) show ?thesis by (auto simp: kind_eqs all_faces_def)
  next
    case True
    show ?thesis
    proof (cases "re_match face_re (strip l)")
      case None
      with KParen True assms(2) show ?thesis by (auto simp: kind_eqs all_faces_def)
    next
      case (Some gs)
      from True assms(1) obtain b where b: "current_brush s = Some b"
        by (auto simp: brush_inv_def)
      from KParen True Some assms(2) show ?thesis
        by (auto simp: kind_eqs event_kinds all_faces_def add_face_eq [OF Some b] b
            split: if_splits)
    qed
  qed
next
  case KOther
  with assms(2) show ?thesis by (auto simp: kind_eqs all_faces_def)
qed

lemma faces_run:
  assumes "brush_inv s" "run_lines s ls = Inr s'"
  shows "all_faces s' \<subseteq> all_faces s \<union> face_of (default_texture s) ` set (events face_event s ls)"
  using assms
proof (induction ls arbitrary: s)
  case Nil
  then show ?case by simp
next
  case (Cons l ls)
  from Cons.prems(2) obtain s1 where p: "process_line s l = Inr s1"
      and r: "run_lines s1 ls = Inr s'"
    by (auto split: sum.splits)
  from process_line_step [OF Cons.prems(1) p] p have
    s1: "process_line s l = Inr s1" "brush_inv s1" "default_texture s1 = default_texture s"
    by blast+
  from Cons.IH [OF s1(2) r] s1(3)
  have "all_faces s' \<subseteq> all_faces s1 \<union> face_of (default_texture s) ` set (events face_event s1 ls)"
    by simp
  moreover note faces_step [OF Cons.prems(1) s1(1)]
  moreover have "events face_event s (l # ls)
      = (case face_event s l of None \<Rightarrow> [] | Some gs \<Rightarrow> [gs]) @ events face_event s1 ls"
    using s1(1) by simp
  ultimately show ?case by (auto split: option.splits)
qed

lemma events_from_lines:
  assumes "\<And>s l a. ev s l = Some a \<Longrightarrow> P l a"
  shows "a \<in> set (events ev s ls) \<Longrightarrow> \<exists>l \<in> set ls. P l a"
  by (induction ls arbitrary: s) (auto split: option.splits sum.splits intro: assms [OF sym])

lemma face_events_from_lines:
  assumes "gs \<in> set (events face_event s ls)"
  shows "\<exists>l \<in> set ls. re_match face_re (strip l) = Some gs"
proof (rule events_from_lines [OF _ assms])
  fix t l a
  assume "face_event t l = Some a"
  then show "re_match face_re (strip l) = Some a"
    by (simp add: face_event_def split: if_splits)
qed

lemma parsed_faces:
  assumes "parse_map_file (init dt) map_content = Inr (c', st)"
    and "b \<in> set (brushes c')" "f \<in> set (faces b)"
  shows "\<exists>gs \<in> set (events face_event (start (init dt)) (split_nl map_content)).
           f = face_of dt gs"
proof -
  from assms(1) obtain s where s: "run_lines (start (init dt)) (split_nl map_content) = Inr s"
      and c': "c' = converter_of s"
    by (rule parse_returns)
  from assms(2,3) c' have "f \<in> all_faces s" by (auto simp: all_faces_def converter_of_def)
  with faces_run [OF start_inv s] show ?thesis
    by (auto simp: all_faces_def start_def init_def)
qed

section \<open>The sentinel material\<close>

lemma face_step:
  assumes "face_event s l = Some gs" "current_brush s = Some b"
  shows "process_line s l =
           (if short_numbers gs
            then Inr (s\<lparr>current_brush :=
                          Some (b\<lparr>faces := faces b @ [face_of (default_texture s) gs]\<rparr>),
                        face_count := face_count s + 1,
                        material_replacements_cnt :=
                          (if gs ! 3 = sentinel then material_replacements_cnt s + 1
                           else material_replacements_cnt s)\<rparr>)
            else Inl ValueError)"
proof -
  from assms(1) have k: "line_kind l = KParen" and i: "in_brush s" "\<not> pending_brush s"
    and m: "re_match face_re (strip l) = Some gs"
    by (simp_all add: face_event_kind split: if_splits)
  show ?thesis
    using i m by (simp add: kind_paren [OF k] add_face_eq [OF m assms(2)])
qed

text \<open>
  C4. Each face that the loop adds (in any state, from a line with the groups \<open>hs\<close>, whose
  three numbers \<open>int\<close> converts; the line raises \<open>ValueError\<close> otherwise and adds nothing)
  is built with the default texture in place of the material \<open>__TB_empty\<close> and with any
  other material as it is. When \<open>parse_map_file\<close> returns on a fresh converter with any
  default texture, every face of the document is such a face; \<open>material_replacements\<close> is
  the number of faces added whose material group was the sentinel, and \<open>faces_processed\<close>
  the number of faces added.
\<close>

theorem sentinel_replaced_and_counted:
  assumes "parse_map_file (init dt) map_content = Inr (c', st)"
  shows "material_replacements st
         = int (length (filter (\<lambda>gs. gs ! 3 = sentinel)
                  (events face_event (start (init dt)) (split_nl map_content))))
     \<and> faces_processed st
         = int (length (events face_event (start (init dt)) (split_nl map_content)))
     \<and> (\<forall>b \<in> set (brushes c'). \<forall>f \<in> set (faces b).
           \<exists>gs \<in> set (events face_event (start (init dt)) (split_nl map_content)).
             f = face_of dt gs
             \<and> material f = (if gs ! 3 = sentinel then dt else gs ! 3))
     \<and> (face_event t raw = Some hs \<and> current_brush t = Some cur \<longrightarrow>
           process_line t raw =
             (if short_numbers hs
              then Inr (t\<lparr>current_brush :=
                            Some (cur\<lparr>faces := faces cur @ [face_of (default_texture t) hs]\<rparr>),
                          face_count := face_count t + 1,
                          material_replacements_cnt :=
                            (if hs ! 3 = sentinel then material_replacements_cnt t + 1
                             else material_replacements_cnt t)\<rparr>)
              else Inl ValueError)
           \<and> material (face_of (default_texture t) hs)
               = (if hs ! 3 = sentinel then default_texture t else hs ! 3))"
proof -
  let ?ls = "split_nl map_content"
  from assms obtain s where
    s: "run_lines (start (init dt)) ?ls = Inr s" and st: "st = stats_of s"
    by (rule parse_returns)
  from run_lines_summary [OF start_inv s] have
    t: "face_count s = face_count (start (init dt)) + int (length (events face_event (start (init dt)) ?ls))"
       "material_replacements_cnt s =
         material_replacements_cnt (start (init dt))
         + int (length (filter (\<lambda>gs. gs ! 3 = sentinel) (events face_event (start (init dt)) ?ls)))"
    by blast+
  have 1: "material_replacements st
         = int (length (filter (\<lambda>gs. gs ! 3 = sentinel) (events face_event (start (init dt)) ?ls)))"
    using t(2) by (simp add: st stats_of_def start_def)
  have 2: "faces_processed st
         = int (length (events face_event (start (init dt)) ?ls))"
    using t(1) by (simp add: st stats_of_def start_def)
  have 3: "\<forall>b \<in> set (brushes c'). \<forall>f \<in> set (faces b).
           \<exists>gs \<in> set (events face_event (start (init dt)) ?ls).
             f = face_of dt gs
             \<and> material f = (if gs ! 3 = sentinel then dt else gs ! 3)"
  proof (intro ballI)
    fix b f assume "b \<in> set (brushes c')" "f \<in> set (faces b)"
    from parsed_faces [OF assms this] obtain gs where
      "gs \<in> set (events face_event (start (init dt)) ?ls)" "f = face_of dt gs" by blast
    then show "\<exists>gs \<in> set (events face_event (start (init dt)) ?ls).
             f = face_of dt gs
             \<and> material f = (if gs ! 3 = sentinel then dt else gs ! 3)"
      by (auto simp: face_of_def)
  qed
  have 4: "face_event t raw = Some hs \<and> current_brush t = Some cur \<longrightarrow>
           process_line t raw =
             (if short_numbers hs
              then Inr (t\<lparr>current_brush :=
                            Some (cur\<lparr>faces := faces cur @ [face_of (default_texture t) hs]\<rparr>),
                          face_count := face_count t + 1,
                          material_replacements_cnt :=
                            (if hs ! 3 = sentinel then material_replacements_cnt t + 1
                             else material_replacements_cnt t)\<rparr>)
              else Inl ValueError)
           \<and> material (face_of (default_texture t) hs)
               = (if hs ! 3 = sentinel then default_texture t else hs ! 3)"
  proof (intro impI conjI)
    assume a: "face_event t raw = Some hs \<and> current_brush t = Some cur"
    from a have "face_event t raw = Some hs" "current_brush t = Some cur" by simp_all
    then show "process_line t raw =
             (if short_numbers hs
              then Inr (t\<lparr>current_brush :=
                            Some (cur\<lparr>faces := faces cur @ [face_of (default_texture t) hs]\<rparr>),
                          face_count := face_count t + 1,
                          material_replacements_cnt :=
                            (if hs ! 3 = sentinel then material_replacements_cnt t + 1
                             else material_replacements_cnt t)\<rparr>)
              else Inl ValueError)"
      by (rule face_step)
    show "material (face_of (default_texture t) hs)
               = (if hs ! 3 = sentinel then default_texture t else hs ! 3)"
      by (simp add: face_of_def)
  qed
  show ?thesis by (intro conjI 1 2 3 4)
qed

lemma sentinel_line_eval:
  "face_event in_nested_brush ''(0)(0)(0) __TB_empty [u] [v] 0 1 1''
     = Some [''0'', ''0'', ''0'', ''__TB_empty'', ''u'', ''v'', ''0'', ''1'', ''1'']"
  by (simp add: face_event_def in_nested_brush_def parse_eval)

lemma two_face_text_run:
  "parse_map_file (init ''dev/tex'') two_face_text
     = Inr (\<lparr>worldspawn_properties = [],
             brushes = [\<lparr>faces =
               [\<lparr>p1 = ''0'', p2 = ''0'', p3 = ''0'', material = ''dev/tex'',
                 uaxis = ''u'', vaxis = ''v'', rotation = 0, scale_x = 1, scale_y = 1\<rparr>,
                \<lparr>p1 = ''0'', p2 = ''0'', p3 = ''0'', material = ''m'',
                 uaxis = ''u'', vaxis = ''v'', rotation = 0, scale_x = 1, scale_y = 1\<rparr>]\<rparr>],
             default_texture = ''dev/tex''\<rparr>,
            \<lparr>brushes_found = 1, brushes_processed = 1, faces_processed = 2,
             material_replacements = 1\<rparr>)"
  by (simp add: two_face_text_def parse_eval)

theorem sentinel_replaced_and_counted_witness:
  "(\<exists>c' st. parse_map_file (init ''dev/tex'') two_face_text = Inr (c', st)
     \<and> material_replacements st = 1 \<and> faces_processed st = 2
     \<and> map material (faces (hd (brushes c'))) = [''dev/tex'', ''m'']
     \<and> (\<forall>b \<in> set (brushes c'). \<forall>f \<in> set (faces b).
           \<exists>gs \<in> set (events face_event (start (init ''dev/tex'')) (split_nl two_face_text)).
             f = face_of ''dev/tex'' gs))
   \<and> process_line in_nested_brush ''(0)(0)(0) __TB_empty [u] [v] 0 1 1''
       = Inr (in_nested_brush\<lparr>current_brush :=
                Some \<lparr>faces = [face_of ''t''
                  [''0'', ''0'', ''0'', ''__TB_empty'', ''u'', ''v'', ''0'', ''1'', ''1'']]\<rparr>,
                face_count := 1, material_replacements_cnt := 1\<rparr>)
   \<and> material (face_of ''t''
         [''0'', ''0'', ''0'', ''__TB_empty'', ''u'', ''v'', ''0'', ''1'', ''1'']) = ''t''"
proof -
  note T = sentinel_replaced_and_counted [OF two_face_text_run,
      where t = in_nested_brush and raw = "''(0)(0)(0) __TB_empty [u] [v] 0 1 1''"
      and hs = "[''0'', ''0'', ''0'', ''__TB_empty'', ''u'', ''v'', ''0'', ''1'', ''1'']"
      and cur = "\<lparr>faces = []\<rparr>"]
  have cb: "current_brush in_nested_brush = Some \<lparr>faces = []\<rparr>"
      "default_texture in_nested_brush = ''t''" "face_count in_nested_brush = 0"
      "material_replacements_cnt in_nested_brush = 0"
    by (simp_all add: in_nested_brush_def)
  have h3: "[''0'', ''0'', ''0'', ''__TB_empty'', ''u'', ''v'', ''0'', ''1'', ''1''] ! 3 = sentinel"
    by (simp add: sentinel_def)
  have sh: "short_numbers [''0'', ''0'', ''0'', ''__TB_empty'', ''u'', ''v'', ''0'', ''1'', ''1'']"
    by (simp add: short_numbers_def int_max_str_digits_def)
  have a': "\<forall>b \<in> set (brushes (fst (projr (parse_map_file (init ''dev/tex'') two_face_text)))).
         \<forall>f \<in> set (faces b).
           \<exists>gs \<in> set (events face_event (start (init ''dev/tex'')) (split_nl two_face_text)).
             f = face_of ''dev/tex'' gs"
    using T [THEN conjunct2, THEN conjunct2, THEN conjunct1]
    unfolding two_face_text_run by fastforce
  have st: "material_replacements (snd (projr (parse_map_file (init ''dev/tex'') two_face_text))) = 1"
      "faces_processed (snd (projr (parse_map_file (init ''dev/tex'') two_face_text))) = 2"
      "map material (faces (hd (brushes (fst (projr (parse_map_file (init ''dev/tex'') two_face_text))))))
         = [''dev/tex'', ''m'']"
    by (simp_all add: two_face_text_run)
  have r: "parse_map_file (init ''dev/tex'') two_face_text
      = Inr (fst (projr (parse_map_file (init ''dev/tex'') two_face_text)),
             snd (projr (parse_map_file (init ''dev/tex'') two_face_text)))"
    by (simp add: two_face_text_run)
  from T [THEN conjunct2, THEN conjunct2, THEN conjunct2, THEN mp,
      OF conjI [OF sentinel_line_eval cb(1)]]
  have p: "process_line in_nested_brush ''(0)(0)(0) __TB_empty [u] [v] 0 1 1''
       = Inr (in_nested_brush\<lparr>current_brush :=
                Some \<lparr>faces = [face_of ''t''
                  [''0'', ''0'', ''0'', ''__TB_empty'', ''u'', ''v'', ''0'', ''1'', ''1'']]\<rparr>,
                face_count := 1, material_replacements_cnt := 1\<rparr>)"
    and q: "material (face_of ''t''
         [''0'', ''0'', ''0'', ''__TB_empty'', ''u'', ''v'', ''0'', ''1'', ''1'']) = ''t''"
    unfolding h3 cb by (simp_all add: sh)
  have first: "\<exists>c' st. parse_map_file (init ''dev/tex'') two_face_text = Inr (c', st)
     \<and> material_replacements st = 1 \<and> faces_processed st = 2
     \<and> map material (faces (hd (brushes c'))) = [''dev/tex'', ''m'']
     \<and> (\<forall>b \<in> set (brushes c'). \<forall>f \<in> set (faces b).
           \<exists>gs \<in> set (events face_event (start (init ''dev/tex'')) (split_nl two_face_text)).
             f = face_of ''dev/tex'' gs)"
    by (rule exI [of _ "fst (projr (parse_map_file (init ''dev/tex'') two_face_text))"],
        rule exI [of _ "snd (projr (parse_map_file (init ''dev/tex'') two_face_text))"])
       (intro conjI r st a')
  show ?thesis
    by (rule conjI [OF first conjI [OF p q]])
qed

section \<open>A second call on the same converter\<close>

lemma same_locals_step:
  assumes "same_locals s t" "brush_inv s"
    and "process_line s l = Inr s1" "process_line t l = Inr t1"
  shows "same_locals s1 t1"
proof (cases "line_kind l")
  case KMarker
  with assms show ?thesis by (auto simp: kind_eqs same_locals_def)
next
  case KOpen
  with assms show ?thesis by (auto simp: kind_eqs same_locals_def split: if_splits)
next
  case KClose
  with assms show ?thesis
    by (auto simp: kind_eqs same_locals_def close_brace_eq split: if_splits option.splits)
next
  case KQuote
  show ?thesis
  proof (cases "re_match property_re (strip l)")
    case None
    with KQuote assms show ?thesis by (auto simp: kind_eqs same_locals_def split: if_splits)
  next
    case (Some gs)
    with KQuote assms show ?thesis
      by (auto simp: kind_eqs same_locals_def set_property_ok [OF Some] split: if_splits)
  qed
next
  case KParen
  show ?thesis
  proof (cases "in_brush s \<and> \<not> pending_brush s")
    case False
    with KParen assms show ?thesis by (auto simp: kind_eqs same_locals_def)
  next
    case True
    show ?thesis
    proof (cases "re_match face_re (strip l)")
      case None
      with KParen True assms show ?thesis by (auto simp: kind_eqs same_locals_def)
    next
      case (Some gs)
      from True assms(2) obtain b where b: "current_brush s = Some b"
        by (auto simp: brush_inv_def)
      with assms(1) have b': "current_brush t = Some b" by (simp add: same_locals_def)
      from KParen True Some assms show ?thesis
        by (auto simp: kind_eqs same_locals_def add_face_eq [OF Some b] add_face_eq [OF Some b']
            split: if_splits)
    qed
  qed
next
  case KOther
  with assms show ?thesis by (auto simp: kind_eqs same_locals_def)
qed

lemma same_locals_events:
  assumes ev: "\<And>s t l. same_locals s t \<Longrightarrow> ev s l = ev t l"
  shows "same_locals s t \<Longrightarrow> brush_inv s \<Longrightarrow> run_lines s ls = Inr s' \<Longrightarrow>
           run_lines t ls = Inr t' \<Longrightarrow> events ev s ls = events ev t ls"
proof (induction ls arbitrary: s t)
  case Nil
  then show ?case by simp
next
  case (Cons l ls)
  from Cons.prems(3) obtain s1 where s1: "process_line s l = Inr s1"
      and rs: "run_lines s1 ls = Inr s'"
    by (auto split: sum.splits)
  from Cons.prems(4) obtain t1 where t1: "process_line t l = Inr t1"
      and rt: "run_lines t1 ls = Inr t'"
    by (auto split: sum.splits)
  from process_line_step [OF Cons.prems(2) s1] have inv: "brush_inv s1" by blast
  have "same_locals s1 t1"
    by (rule same_locals_step [OF Cons.prems(1,2) s1 t1])
  from Cons.IH [OF this inv rs rt] ev [OF Cons.prems(1), of l] s1 t1 show ?case
    by simp
qed

lemma upd_key_in: "fst ` set (upd m kv) = insert (fst kv) (fst ` set m)"
  by (simp add: upd_def dom_update)

lemma upd_twice: "upd (upd m (k, v0)) (k, v) = upd m (k, v)"
  by (simp add: upd_def)

lemma upd_commute:
  "k \<noteq> k' \<Longrightarrow> k \<in> fst ` set m \<Longrightarrow>
     upd (upd m (k', v')) (k, v) = upd (upd m (k, v)) (k', v')"
  by (induction m) (auto simp: upd_def)

lemma upd_foldl_present:
  "k \<in> fst ` set m \<Longrightarrow> k \<notin> fst ` set ys \<Longrightarrow>
     upd (foldl upd m ys) (k, v) = foldl upd (upd m (k, v)) ys"
proof (induction ys arbitrary: m)
  case Nil
  then show ?case by simp
next
  case (Cons y ys)
  obtain k' v' where y: "y = (k', v')" by (cases y)
  from Cons.prems y have ne: "k \<noteq> k'" and nin: "k \<notin> fst ` set ys" by auto
  from Cons.prems(1) have "k \<in> fst ` set (upd m y)" by (simp add: upd_key_in)
  from Cons.IH [OF this nin]
  have "upd (foldl upd (upd m y) ys) (k, v) = foldl upd (upd (upd m y) (k, v)) ys" .
  also have "upd (upd m y) (k, v) = upd (upd m (k, v)) y"
    unfolding y by (rule upd_commute [OF ne Cons.prems(1)])
  finally show ?case by simp
qed

lemma upd_foldl_distinct:
  "distinct (map fst p0) \<Longrightarrow>
     upd (foldl upd pc p0) (k, v) = foldl upd pc (upd p0 (k, v))"
proof (induction p0 arbitrary: pc)
  case Nil
  then show ?case by (simp add: upd_def)
next
  case (Cons y p0)
  obtain k1 v1 where y: "y = (k1, v1)" by (cases y)
  show ?case
  proof (cases "k1 = k")
    case True
    from Cons.prems y True have nin: "k \<notin> fst ` set p0" by auto
    have kin: "k \<in> fst ` set (upd pc (k, v1))" by (simp add: upd_key_in)
    have "upd (foldl upd pc (y # p0)) (k, v) = upd (foldl upd (upd pc (k, v1)) p0) (k, v)"
      by (simp add: y True)
    also have "\<dots> = foldl upd (upd (upd pc (k, v1)) (k, v)) p0"
      by (rule upd_foldl_present [OF kin nin])
    also have "\<dots> = foldl upd (upd pc (k, v)) p0" by (simp only: upd_twice)
    also have "\<dots> = foldl upd pc (upd (y # p0) (k, v))"
      by (simp add: y True upd_def)
    finally show ?thesis .
  next
    case False
    from Cons.prems have d: "distinct (map fst p0)" by simp
    have "upd (foldl upd pc (y # p0)) (k, v) = upd (foldl upd (upd pc y) p0) (k, v)"
      by simp
    also have "\<dots> = foldl upd (upd pc y) (upd p0 (k, v))"
      by (rule Cons.IH [OF d])
    also have "\<dots> = foldl upd pc (upd (y # p0) (k, v))"
      using False by (simp add: y upd_def)
    finally show ?thesis .
  qed
qed

lemma foldl_upd_twice: "foldl upd m (foldl upd [] ws) = foldl upd m ws"
proof (induction ws rule: rev_induct)
  case Nil
  then show ?case by simp
next
  case (snoc kv ws)
  obtain k v where kv: "kv = (k, v)" by (cases kv)
  have d: "distinct (map fst (foldl upd [] ws))"
    by (simp add: keys_foldl_upd first_write_order_def)
  have "foldl upd m (foldl upd [] (ws @ [kv])) = foldl upd m (upd (foldl upd [] ws) (k, v))"
    by (simp add: kv)
  also have "\<dots> = upd (foldl upd m (foldl upd [] ws)) (k, v)"
    by (rule upd_foldl_distinct [OF d, symmetric])
  also have "\<dots> = foldl upd m (ws @ [kv])"
    by (simp add: snoc.IH kv)
  finally show ?case .
qed

lemma parse_result:
  assumes "parse_map_file c map_content = Inr (c', st)"
  shows "worldspawn_properties c'
         = foldl upd (worldspawn_properties c) (events upsert_event (start c) (split_nl map_content))"
    and "brushes c' = brushes c @ events close_event (start c) (split_nl map_content)"
    and "default_texture c' = default_texture c"
    and "brushes_processed st = int (length (brushes c'))"
proof -
  from assms obtain s where r: "run_lines (start c) (split_nl map_content) = Inr s"
      and c': "c' = converter_of s" and st: "st = stats_of s"
    by (rule parse_returns)
  from run_lines_summary [OF start_inv r] have
    s: "brush_inv s"
       "default_texture s = default_texture (start c)"
       "worldspawn_properties s
          = foldl upd (worldspawn_properties (start c))
              (events upsert_event (start c) (split_nl map_content))"
       "brushes s = brushes (start c) @ events close_event (start c) (split_nl map_content)"
    by blast+
  show "worldspawn_properties c'
         = foldl upd (worldspawn_properties c) (events upsert_event (start c) (split_nl map_content))"
    using s(3) by (simp add: c' converter_of_def start_def)
  show "brushes c' = brushes c @ events close_event (start c) (split_nl map_content)"
    using s(4) by (simp add: c' converter_of_def start_def)
  show "default_texture c' = default_texture c"
    using s(2) by (simp add: c' converter_of_def start_def)
  show "brushes_processed st = int (length (brushes c'))"
    by (simp add: c' st converter_of_def stats_of_def)
qed

lemma start_same_locals:
  "default_texture c = default_texture d \<Longrightarrow> same_locals (start c) (start d)"
  by (simp add: same_locals_def start_def)

text \<open>
  C9. A converter made with the default texture \<open>dt\<close> parses a first text and then a
  second one. After the second call its brushes are those of the first call followed by
  the brushes that a fresh converter gets from the second text; its dictionary is the one
  of the first call with the properties of the second text assigned into it in order; and
  the \<open>brushes_processed\<close> it returns is the sum of the counts of the two texts.
\<close>

theorem second_call_accumulates:
  assumes "parse_map_file (init dt) text1 = Inr (c1, st1)"
    and "parse_map_file c1 text2 = Inr (c2, st2)"
    and "parse_map_file (init dt) text2 = Inr (cf, stf)"
  shows "brushes c2 = brushes c1 @ brushes cf
     \<and> worldspawn_properties c2
         = foldl upd (worldspawn_properties c1)
             (events upsert_event (start (init dt)) (split_nl text2))
     \<and> worldspawn_properties c2
         = foldl upd (worldspawn_properties c1) (worldspawn_properties cf)
     \<and> brushes_processed st2 = brushes_processed st1 + brushes_processed stf"
proof -
  let ?ls = "split_nl text2"
  note r1 = parse_result [OF assms(1)]
  note r2 = parse_result [OF assms(2)]
  note rf = parse_result [OF assms(3)]
  have sl: "same_locals (start c1) (start (init dt))"
    by (rule start_same_locals) (simp add: r1(3) init_def)
  from assms(2) obtain s2 where s2: "run_lines (start c1) ?ls = Inr s2"
    by (rule parse_returns)
  from assms(3) obtain sf where sf: "run_lines (start (init dt)) ?ls = Inr sf"
    by (rule parse_returns)
  have e1: "events close_event (start c1) ?ls = events close_event (start (init dt)) ?ls"
    by (rule same_locals_events [OF _ sl start_inv s2 sf])
      (simp add: close_event_def same_locals_def)
  have e2: "events upsert_event (start c1) ?ls = events upsert_event (start (init dt)) ?ls"
    by (rule same_locals_events [OF _ sl start_inv s2 sf])
      (simp add: upsert_event_def same_locals_def)
  have bf: "brushes cf = events close_event (start (init dt)) ?ls"
    using rf(2) by (simp add: init_def)
  have pf: "worldspawn_properties cf = foldl upd [] (events upsert_event (start (init dt)) ?ls)"
    using rf(1) by (simp add: init_def)
  have b: "brushes c2 = brushes c1 @ brushes cf"
    unfolding r2(2) e1 bf ..
  have p: "worldspawn_properties c2
         = foldl upd (worldspawn_properties c1) (events upsert_event (start (init dt)) ?ls)"
    unfolding r2(1) e2 ..
  have q: "worldspawn_properties c2
         = foldl upd (worldspawn_properties c1) (worldspawn_properties cf)"
    unfolding p pf by (simp only: foldl_upd_twice)
  have n: "brushes_processed st2 = brushes_processed st1 + brushes_processed stf"
    unfolding r1(4) r2(4) rf(4) b by simp
  from b p q n show ?thesis by (intro conjI)
qed

lemma first_text_run:
  "parse_map_file (init ''t'') first_text
     = Inr (\<lparr>worldspawn_properties = [(''a'', ''1''), (''b'', ''2'')],
             brushes = [\<lparr>faces = []\<rparr>], default_texture = ''t''\<rparr>,
            \<lparr>brushes_found = 1, brushes_processed = 1, faces_processed = 0,
             material_replacements = 0\<rparr>)"
  by (simp add: first_text_def quoted_pair_def parse_eval)

lemma second_text_run:
  "parse_map_file (init ''t'') second_text
     = Inr (\<lparr>worldspawn_properties = [(''c'', ''3''), (''a'', ''4'')],
             brushes = [\<lparr>faces = []\<rparr>], default_texture = ''t''\<rparr>,
            \<lparr>brushes_found = 1, brushes_processed = 1, faces_processed = 0,
             material_replacements = 0\<rparr>)"
  by (simp add: second_text_def quoted_pair_def parse_eval)

lemma second_call_run:
  "parse_map_file
     \<lparr>worldspawn_properties = [(''a'', ''1''), (''b'', ''2'')],
      brushes = [\<lparr>faces = []\<rparr>], default_texture = ''t''\<rparr> second_text
     = Inr (\<lparr>worldspawn_properties = [(''a'', ''4''), (''b'', ''2''), (''c'', ''3'')],
             brushes = [\<lparr>faces = []\<rparr>, \<lparr>faces = []\<rparr>], default_texture = ''t''\<rparr>,
            \<lparr>brushes_found = 1, brushes_processed = 2, faces_processed = 0,
             material_replacements = 0\<rparr>)"
  by (simp add: second_text_def quoted_pair_def parse_eval)

theorem second_call_accumulates_witness:
  "parse_map_file (init ''t'') first_text
     = Inr (\<lparr>worldspawn_properties = [(''a'', ''1''), (''b'', ''2'')],
             brushes = [\<lparr>faces = []\<rparr>], default_texture = ''t''\<rparr>,
            \<lparr>brushes_found = 1, brushes_processed = 1, faces_processed = 0,
             material_replacements = 0\<rparr>)
   \<and> parse_map_file
     \<lparr>worldspawn_properties = [(''a'', ''1''), (''b'', ''2'')],
      brushes = [\<lparr>faces = []\<rparr>], default_texture = ''t''\<rparr> second_text
     = Inr (\<lparr>worldspawn_properties = [(''a'', ''4''), (''b'', ''2''), (''c'', ''3'')],
             brushes = [\<lparr>faces = []\<rparr>, \<lparr>faces = []\<rparr>], default_texture = ''t''\<rparr>,
            \<lparr>brushes_found = 1, brushes_processed = 2, faces_processed = 0,
             material_replacements = 0\<rparr>)
   \<and> [\<lparr>faces = []\<rparr>, \<lparr>faces = []\<rparr>] = [\<lparr>faces = []\<rparr>] @ [\<lparr>faces = []\<rparr>]
   \<and> [(''a'', ''4''), (''b'', ''2''), (''c'', ''3'')]
       = foldl upd [(''a'', ''1''), (''b'', ''2'')] [(''c'', ''3''), (''a'', ''4'')]
   \<and> (2 :: int) = 1 + 1"
proof -
  note T = second_call_accumulates [OF first_text_run second_call_run second_text_run]
  have a: "[\<lparr>faces = []\<rparr>, \<lparr>faces = []\<rparr>] = [\<lparr>faces = []\<rparr>] @ [\<lparr>faces = []\<rparr>]"
    using T [THEN conjunct1] by simp
  have b: "[(''a'', ''4''), (''b'', ''2''), (''c'', ''3'')]
       = foldl upd [(''a'', ''1''), (''b'', ''2'')] [(''c'', ''3''), (''a'', ''4'')]"
    using T [THEN conjunct2, THEN conjunct2, THEN conjunct1] by simp
  have c: "(2 :: int) = 1 + 1"
    using T [THEN conjunct2, THEN conjunct2, THEN conjunct2] by simp
  show ?thesis by (intro conjI first_text_run second_call_run a b c)
qed

section \<open>The fields of a face in the serialized text\<close>

lemma side_lines_of_groups:
  "take 4 (drop 3 (side_lines n (face_of dt gs))) = passthrough_lines (stored_groups dt gs)"
  by (simp add: side_lines_def face_of_def passthrough_lines_def stored_groups_def)

text \<open>
  C6, as the code has it. When \<open>parse_map_file\<close> returns on a fresh converter, the brushes
  of the document are the brushes that a closing brace ended, in order. Every face of
  such a brush comes from a line of the text that the face pattern matches, and its side
  block stands in the serialized text; the plane, material, uaxis and vaxis lines of
  that block are written from the groups captured on the line after \<open>strip()\<close> has
  removed the white space at both ends of the three points and the two axes (the
  material is not stripped, and the sentinel is replaced), with only the parentheses,
  the brackets and the suffix \<open>0.25\<close> added.
\<close>

theorem passthrough_after_strip:
  assumes "parse_map_file (init dt) map_content = Inr (c', st)"
    and "b \<in> set (brushes c')" "f \<in> set (faces b)"
  shows "brushes c' = events close_event (start (init dt)) (split_nl map_content)
     \<and> (\<exists>l \<in> set (split_nl map_content). \<exists>gs n pre post.
           re_match face_re (strip l) = Some gs
           \<and> f = face_of dt gs
           \<and> generate_vmf c' = join_nl (pre @ side_lines n f @ post)
           \<and> take 4 (drop 3 (side_lines n f)) = passthrough_lines (stored_groups dt gs))"
proof -
  from assms(1) obtain s where
    s: "run_lines (start (init dt)) (split_nl map_content) = Inr s" and c': "c' = converter_of s"
    by (rule parse_returns)
  from run_lines_summary [OF start_inv s] have
    "brushes s = brushes (start (init dt)) @ events close_event (start (init dt)) (split_nl map_content)"
    by blast
  then have 1: "brushes c' = events close_event (start (init dt)) (split_nl map_content)"
    by (simp add: c' converter_of_def start_def init_def)
  from parsed_faces [OF assms] obtain gs where
    gs: "gs \<in> set (events face_event (start (init dt)) (split_nl map_content))"
    and f: "f = face_of dt gs" by blast
  from face_events_from_lines [OF gs] obtain l where
    l: "l \<in> set (split_nl map_content)" "re_match face_re (strip l) = Some gs" by blast
  from vmf_lines_contains [OF assms(2,3)] obtain n pre post where
    "vmf_lines c' = pre @ side_lines n f @ post" by blast
  then have v: "generate_vmf c' = join_nl (pre @ side_lines n f @ post)"
    by (simp add: generate_vmf_def)
  have "take 4 (drop 3 (side_lines n f)) = passthrough_lines (stored_groups dt gs)"
    unfolding f by (rule side_lines_of_groups)
  with l v f have 2: "\<exists>l \<in> set (split_nl map_content). \<exists>gs n pre post.
           re_match face_re (strip l) = Some gs
           \<and> f = face_of dt gs
           \<and> generate_vmf c' = join_nl (pre @ side_lines n f @ post)
           \<and> take 4 (drop 3 (side_lines n f)) = passthrough_lines (stored_groups dt gs)"
    by blast
  show ?thesis by (intro conjI 1 2)
qed

lemma spaced_groups:
  "re_match face_re spaced_line
     = Some [''0 0 0 '', ''0 0 1 '', ''0 1 0 '', ''m'', '' 1 0 0 0 '', '' 0 1 0 0 '',
             ''0'', ''1'', ''1'']"
  by (simp add: spaced_line_def re_match_def face_re_def capture_def isspace_def isdigit_def)

lemma spaced_text_run:
  "parse_map_file (init ''t'') spaced_text
     = Inr (\<lparr>worldspawn_properties = [],
             brushes = [\<lparr>faces = [face0 ''m'']\<rparr>],
             default_texture = ''t''\<rparr>,
            \<lparr>brushes_found = 1, brushes_processed = 1, faces_processed = 1,
             material_replacements = 0\<rparr>)"
  by (simp add: spaced_text_def spaced_line_def face0_def parse_eval)

lemma spaced_close_events:
  "events close_event (start (init ''t'')) (split_nl spaced_text) = [\<lparr>faces = [face0 ''m'']\<rparr>]"
  by (simp add: spaced_text_def spaced_line_def face0_def close_event_def parse_eval)

theorem passthrough_after_strip_witness:
  "[\<lparr>faces = [face0 ''m'']\<rparr>] = events close_event (start (init ''t'')) (split_nl spaced_text)
   \<and> (\<exists>l gs n pre post.
     re_match face_re (strip l) = Some gs
     \<and> face0 ''m'' = face_of ''t'' gs
     \<and> generate_vmf \<lparr>worldspawn_properties = [], brushes = [\<lparr>faces = [face0 ''m'']\<rparr>],
                   default_texture = ''t''\<rparr>
         = join_nl (pre @ side_lines n (face0 ''m'') @ post)
     \<and> take 4 (drop 3 (side_lines n (face0 ''m''))) = passthrough_lines (stored_groups ''t'' gs))"
proof -
  have T: "brushes \<lparr>worldspawn_properties = [], brushes = [\<lparr>faces = [face0 ''m'']\<rparr>],
                   default_texture = ''t''\<rparr>
       = events close_event (start (init ''t'')) (split_nl spaced_text)
   \<and> (\<exists>l \<in> set (split_nl spaced_text). \<exists>gs n pre post.
     re_match face_re (strip l) = Some gs
     \<and> face0 ''m'' = face_of ''t'' gs
     \<and> generate_vmf \<lparr>worldspawn_properties = [], brushes = [\<lparr>faces = [face0 ''m'']\<rparr>],
                   default_texture = ''t''\<rparr>
         = join_nl (pre @ side_lines n (face0 ''m'') @ post)
     \<and> take 4 (drop 3 (side_lines n (face0 ''m''))) = passthrough_lines (stored_groups ''t'' gs))"
    by (rule passthrough_after_strip [OF spaced_text_run, of "\<lparr>faces = [face0 ''m'']\<rparr>"])
       simp_all
  have a: "[\<lparr>faces = [face0 ''m'']\<rparr>]
      = events close_event (start (init ''t'')) (split_nl spaced_text)"
    using T [THEN conjunct1] by simp
  have b: "\<exists>l gs n pre post.
     re_match face_re (strip l) = Some gs
     \<and> face0 ''m'' = face_of ''t'' gs
     \<and> generate_vmf \<lparr>worldspawn_properties = [], brushes = [\<lparr>faces = [face0 ''m'']\<rparr>],
                   default_texture = ''t''\<rparr>
         = join_nl (pre @ side_lines n (face0 ''m'') @ post)
     \<and> take 4 (drop 3 (side_lines n (face0 ''m''))) = passthrough_lines (stored_groups ''t'' gs)"
    using T [THEN conjunct2] by blast
  show ?thesis by (intro conjI a b)
qed

lemma abandoned_face_text_run:
  "parse_map_file (init ''t'') abandoned_face_text
     = Inr (\<lparr>worldspawn_properties = [], brushes = [\<lparr>faces = []\<rparr>], default_texture = ''t''\<rparr>,
            \<lparr>brushes_found = 2, brushes_processed = 1, faces_processed = 1,
             material_replacements = 0\<rparr>)"
  by (simp add: abandoned_face_text_def parse_eval)

lemma abandoned_face_events:
  "events face_event (start (init ''t'')) (split_nl abandoned_face_text)
     = [[''1'', ''2'', ''3'', ''m'', ''u'', ''v'', ''0'', ''1'', ''1'']]"
  by (simp add: abandoned_face_text_def face_event_def parse_eval)

text \<open>
  C6 as stated fails on \<open>spaced_line\<close>: the groups captured for the first point and for
  the uaxis are \<open>0 0 0\<close> with a blank after it and \<open>1 0 0 0\<close> with a blank on both
  sides, and the serialized plane and uaxis lines carry them without these blanks, so
  the lines are not the captured groups with parentheses, brackets and suffix added.
  It fails on \<open>abandoned_face_text\<close> too: the face parsed from its third line belongs to a
  brush that the second marker abandons, and the serialized text has one solid with no
  side in it.
\<close>

theorem passthrough_verbatim_counterexample:
  "re_match face_re spaced_line
     = Some [''0 0 0 '', ''0 0 1 '', ''0 1 0 '', ''m'', '' 1 0 0 0 '', '' 0 1 0 0 '',
             ''0'', ''1'', ''1'']
   \<and> parse_map_file (init ''t'') spaced_text
     = Inr (\<lparr>worldspawn_properties = [], brushes = [\<lparr>faces = [face0 ''m'']\<rparr>],
             default_texture = ''t''\<rparr>,
            \<lparr>brushes_found = 1, brushes_processed = 1, faces_processed = 1,
             material_replacements = 0\<rparr>)
   \<and> take 4 (drop 9 (vmf_lines \<lparr>worldspawn_properties = [],
                                 brushes = [\<lparr>faces = [face0 ''m'']\<rparr>],
                                 default_texture = ''t''\<rparr>))
     = [[tab, tab, tab] @ quoted_pair ''plane'' ''(0 0 0) (0 0 1) (0 1 0)'',
        [tab, tab, tab] @ quoted_pair ''material'' ''m'',
        [tab, tab, tab] @ quoted_pair ''uaxis'' ''[1 0 0 0] 0.25'',
        [tab, tab, tab] @ quoted_pair ''vaxis'' ''[0 1 0 0] 0.25'']
   \<and> passthrough_lines [''0 0 0 '', ''0 0 1 '', ''0 1 0 '', ''m'', '' 1 0 0 0 '', '' 0 1 0 0 '']
     = [[tab, tab, tab] @ quoted_pair ''plane'' ''(0 0 0 ) (0 0 1 ) (0 1 0 )'',
        [tab, tab, tab] @ quoted_pair ''material'' ''m'',
        [tab, tab, tab] @ quoted_pair ''uaxis'' ''[ 1 0 0 0 ] 0.25'',
        [tab, tab, tab] @ quoted_pair ''vaxis'' ''[ 0 1 0 0 ] 0.25'']
   \<and> take 4 (drop 9 (vmf_lines \<lparr>worldspawn_properties = [],
                                 brushes = [\<lparr>faces = [face0 ''m'']\<rparr>],
                                 default_texture = ''t''\<rparr>))
     \<noteq> passthrough_lines [''0 0 0 '', ''0 0 1 '', ''0 1 0 '', ''m'', '' 1 0 0 0 '', '' 0 1 0 0 '']
   \<and> events face_event (start (init ''t'')) (split_nl abandoned_face_text)
     = [[''1'', ''2'', ''3'', ''m'', ''u'', ''v'', ''0'', ''1'', ''1'']]
   \<and> parse_map_file (init ''t'') abandoned_face_text
     = Inr (\<lparr>worldspawn_properties = [], brushes = [\<lparr>faces = []\<rparr>], default_texture = ''t''\<rparr>,
            \<lparr>brushes_found = 2, brushes_processed = 1, faces_processed = 1,
             material_replacements = 0\<rparr>)
   \<and> generate_vmf \<lparr>worldspawn_properties = [], brushes = [\<lparr>faces = []\<rparr>],
                    default_texture = ''t''\<rparr>
     = join_nl [''world'', ''{'', [tab] @ quoted_pair ''id'' ''0'',
                [tab] @ ''solid'', [tab] @ ''{'', [tab, tab] @ quoted_pair ''id'' ''1'',
                [tab] @ ''}'', ''}'']"
proof -
  have 1: "re_match face_re spaced_line
     = Some [''0 0 0 '', ''0 0 1 '', ''0 1 0 '', ''m'', '' 1 0 0 0 '', '' 0 1 0 0 '',
             ''0'', ''1'', ''1'']"
    by (rule spaced_groups)
  have 3: "take 4 (drop 9 (vmf_lines \<lparr>worldspawn_properties = [],
                                 brushes = [\<lparr>faces = [face0 ''m'']\<rparr>],
                                 default_texture = ''t''\<rparr>))
     = [[tab, tab, tab] @ quoted_pair ''plane'' ''(0 0 0) (0 0 1) (0 1 0)'',
        [tab, tab, tab] @ quoted_pair ''material'' ''m'',
        [tab, tab, tab] @ quoted_pair ''uaxis'' ''[1 0 0 0] 0.25'',
        [tab, tab, tab] @ quoted_pair ''vaxis'' ''[0 1 0 0] 0.25'']"
    by (simp add: vmf_lines_def side_lines_def face0_def quoted_pair_def)
  have 4: "passthrough_lines [''0 0 0 '', ''0 0 1 '', ''0 1 0 '', ''m'', '' 1 0 0 0 '', '' 0 1 0 0 '']
     = [[tab, tab, tab] @ quoted_pair ''plane'' ''(0 0 0 ) (0 0 1 ) (0 1 0 )'',
        [tab, tab, tab] @ quoted_pair ''material'' ''m'',
        [tab, tab, tab] @ quoted_pair ''uaxis'' ''[ 1 0 0 0 ] 0.25'',
        [tab, tab, tab] @ quoted_pair ''vaxis'' ''[ 0 1 0 0 ] 0.25'']"
    by (simp add: passthrough_lines_def quoted_pair_def)
  have 5: "take 4 (drop 9 (vmf_lines \<lparr>worldspawn_properties = [],
                                 brushes = [\<lparr>faces = [face0 ''m'']\<rparr>],
                                 default_texture = ''t''\<rparr>))
     \<noteq> passthrough_lines [''0 0 0 '', ''0 0 1 '', ''0 1 0 '', ''m'', '' 1 0 0 0 '', '' 0 1 0 0 '']"
    by (simp add: vmf_lines_def side_lines_def face0_def passthrough_lines_def quoted_pair_def)
  have 8: "generate_vmf \<lparr>worldspawn_properties = [], brushes = [\<lparr>faces = []\<rparr>],
                    default_texture = ''t''\<rparr>
     = join_nl [''world'', ''{'', [tab] @ quoted_pair ''id'' ''0'',
                [tab] @ ''solid'', [tab] @ ''{'', [tab, tab] @ quoted_pair ''id'' ''1'',
                [tab] @ ''}'', ''}'']"
    by (simp add: generate_vmf_def vmf_lines_def quoted_pair_def py_str_small)
  show ?thesis
    by (intro conjI 1 spaced_text_run 3 4 5 abandoned_face_events abandoned_face_text_run 8)
qed

end
